theory Spec2Isabelle
  imports Complex_Main "HOL-Library.AList"
begin

section \<open>Primitive values and Python built-ins\<close>

text \<open>
  A raw catalog row is a Python dict from column names to primitive values: \<open>None\<close>,
  booleans, integers, floats and strings (decimals have already been turned into floats
  by \<open>_coerce_decimal\<close>).

  A finite float is modelled by its exact value (every finite double is a rational)
  together with the text Python prints for it (\<open>str\<close> of a float is its shortest
  round-trip representation, which this development does not compute: the text travels
  with the value). Infinities and not-a-number are separate constructors.

  Strings are ASCII texts: \<open>lower\<close> and the white space that \<open>int\<close> strips are those of
  ASCII.
\<close>

datatype pyfloat = Finite rat string | PosInf | NegInf | NaN

datatype prim = PNone | PBool bool | PInt int | PFloat pyfloat | PStr string

text \<open>
  A Python dict is an association list in insertion order; a lookup is \<^const>\<open>map_of\<close>, an
  assignment \<open>d[k] = v\<close> is \<^const>\<open>AList.update\<close> (it replaces the value in place when the
  key is bound and appends the binding otherwise).
\<close>

type_synonym PrimitiveDict = "(string \<times> prim) list"

subsection \<open>\<open>str\<close>\<close>

fun digits :: "nat \<Rightarrow> string" where
  "digits n =
     (if n < 10 then [char_of (48 + n)]
      else digits (n div 10) @ [char_of (48 + n mod 10)])"

declare digits.simps [simp del]

definition str_int :: "int \<Rightarrow> string" where
  "str_int i = (if i < 0 then CHR ''-'' # digits (nat (- i)) else digits (nat i))"

fun py_str :: "prim \<Rightarrow> string" where
  "py_str PNone = ''None''"
| "py_str (PBool b) = (if b then ''True'' else ''False'')"
| "py_str (PInt i) = str_int i"
| "py_str (PFloat (Finite q r)) = r"
| "py_str (PFloat PosInf) = ''inf''"
| "py_str (PFloat NegInf) = ''-inf''"
| "py_str (PFloat NaN) = ''nan''"
| "py_str (PStr s) = s"

subsection \<open>\<open>str.lower\<close>\<close>

definition lower_char :: "char \<Rightarrow> char" where
  "lower_char c =
     (let n = (of_char c :: nat) in if 65 \<le> n \<and> n \<le> 90 then char_of (n + 32) else c)"

definition lower :: "string \<Rightarrow> string" where
  "lower s = map lower_char s"

subsection \<open>\<open>int\<close>\<close>

text \<open>
  \<open>int(x)\<close>: a boolean is 0 or 1, an integer is itself, a finite float is truncated
  towards zero (exactly: Python integers are unbounded), an infinity raises
  \<open>OverflowError\<close>, not-a-number raises \<open>ValueError\<close>, \<open>None\<close> raises \<open>TypeError\<close>. A string
  is stripped of white space and read as an optional sign and decimal digits, single
  underscores allowed between digits, with no limit on their number; any other string
  raises \<open>ValueError\<close>.
\<close>

datatype py_exception =
    KeyError string
  | ValueError
  | TypeError
  | OverflowError
  | ValidationError

definition is_space :: "char \<Rightarrow> bool" where
  "is_space c =
     (let n = (of_char c :: nat) in (9 \<le> n \<and> n \<le> 13) \<or> (28 \<le> n \<and> n \<le> 32))"

definition strip :: "string \<Rightarrow> string" where
  "strip s = rev (dropWhile is_space (rev (dropWhile is_space s)))"

definition is_digit :: "char \<Rightarrow> bool" where
  "is_digit c = (let n = (of_char c :: nat) in 48 \<le> n \<and> n \<le> 57)"

definition digit_val :: "char \<Rightarrow> int" where
  "digit_val c = int (of_char c) - 48"

text \<open>
  The digits of an integer literal after the first one: a digit, or one underscore followed
  by a digit.
\<close>

fun int_digits :: "int \<Rightarrow> string \<Rightarrow> int option" where
  "int_digits acc [] = Some acc"
| "int_digits acc [c] = (if is_digit c then Some (10 * acc + digit_val c) else None)"
| "int_digits acc (c # d # cs) =
     (if is_digit c then int_digits (10 * acc + digit_val c) (d # cs)
      else if c = CHR ''_'' \<and> is_digit d then int_digits (10 * acc + digit_val d) cs
      else None)"

definition int_of_str :: "string \<Rightarrow> int option" where
  "int_of_str s =
     (let t = strip s;
          neg = (case t of c # _ \<Rightarrow> c = CHR ''-'' | [] \<Rightarrow> False);
          u = (case t of c # r \<Rightarrow> if c = CHR ''-'' \<or> c = CHR ''+'' then r else t | [] \<Rightarrow> t)
      in case u of
           [] \<Rightarrow> None
         | c # cs \<Rightarrow>
             if is_digit c
             then map_option (\<lambda>n. if neg then - n else n) (int_digits (digit_val c) cs)
             else None)"

text \<open>Truncation of a float towards zero.\<close>

definition trunc :: "rat \<Rightarrow> int" where
  "trunc q = (if 0 \<le> q then \<lfloor>q\<rfloor> else \<lceil>q\<rceil>)"

fun py_int :: "prim \<Rightarrow> py_exception + int" where
  "py_int PNone = Inl TypeError"
| "py_int (PBool b) = Inr (if b then 1 else 0)"
| "py_int (PInt i) = Inr i"
| "py_int (PFloat (Finite q r)) = Inr (trunc q)"
| "py_int (PFloat PosInf) = Inl OverflowError"
| "py_int (PFloat NegInf) = Inl OverflowError"
| "py_int (PFloat NaN) = Inl ValueError"
| "py_int (PStr s) = (case int_of_str s of None \<Rightarrow> Inl ValueError | Some i \<Rightarrow> Inr i)"

section \<open>\<open>get_stripped_prefix\<close>\<close>

definition startswith :: "string \<Rightarrow> string \<Rightarrow> bool" where
  "startswith k prefix = (take (length prefix) k = prefix)"

text \<open>
  The comprehension keeps the pairs whose key starts with the prefix, in the order of the
  source, and cuts the prefix off. The keys of a dict are distinct and all kept keys share
  the prefix, so the cut keys are distinct too and no binding overwrites another.
\<close>

definition get_stripped_prefix :: "(string \<times> 'v) list \<Rightarrow> string \<Rightarrow> (string \<times> 'v) list" where
  "get_stripped_prefix source prefix =
     (let cut = length prefix
      in map (\<lambda>(k, v). (drop cut k, v)) (filter (\<lambda>(k, v). startswith k prefix) source))"

section \<open>Statistics\<close>

record StatsItem =
  id_s :: string
  label_s :: string
  value_s :: prim
  description_s :: string
  include_s :: bool

type_synonym StatsDict = "(string \<times> StatsItem) list"

text \<open>
  Modelled from the spec: \<open>StatsItem.from_dict\<close> (the class \<open>StatsItem\<close> of
  \<open>dbt.contracts.results\<close> is not part of \<open>generate.py\<close>). The spec gives the shape of a
  stat item: id (string), label (string), value (primitive: string, number or boolean),
  description (string), include (boolean); a record of another shape fails validation.
  \<open>None\<close> stands for the \<open>ValidationError\<close>.
\<close>

definition is_stat_value :: "prim \<Rightarrow> bool" where
  "is_stat_value v = (case v of PNone \<Rightarrow> False | _ \<Rightarrow> True)"

definition StatsItem_from_dict :: "PrimitiveDict \<Rightarrow> StatsItem option" where
  "StatsItem_from_dict dct =
     (case (map_of dct ''id'', map_of dct ''label'', map_of dct ''value'',
            map_of dct ''description'', map_of dct ''include'') of
        (Some (PStr i), Some (PStr l), Some v, Some (PStr d), Some (PBool b)) \<Rightarrow>
          if is_stat_value v
          then Some \<lparr>id_s = i, label_s = l, value_s = v, description_s = d, include_s = b\<rparr>
          else None
      | _ \<Rightarrow> None)"

text \<open>\<open>k.split(':')[0]\<close>: the part of the key before its first colon.\<close>

definition split_first :: "string \<Rightarrow> string" where
  "split_first k = takeWhile (\<lambda>c. c \<noteq> CHR '':'') k"

text \<open>
  \<open>base_keys\<close> is a Python set; the order in which the loop visits it is not fixed by the
  language. The model visits the ids in the order of their first occurrence in the dict.
  The returned dict has the same bindings in every order; the order only decides which
  \<open>KeyError\<close> is raised when several ids lack a sub-key.
\<close>

definition base_keys :: "PrimitiveDict \<Rightarrow> string list" where
  "base_keys stats = remdups (map (\<lambda>(k, v). split_first k) stats)"

definition subkeys :: "string list" where
  "subkeys = [''label'', ''value'', ''description'', ''include'']"

text \<open>
  The inner loop: \<open>dct[subkey] = stats['{}:{}'.format(key, subkey)]\<close>. The subscript raises
  \<open>KeyError\<close> when the flat key is absent; the loop is not inside the \<open>try\<close>.
\<close>

fun stats_dct :: "PrimitiveDict \<Rightarrow> string \<Rightarrow> string list \<Rightarrow> PrimitiveDict
    \<Rightarrow> py_exception + PrimitiveDict" where
  "stats_dct stats key [] dct = Inr dct"
| "stats_dct stats key (subkey # rest) dct =
     (case map_of stats (key @ '':'' @ subkey) of
        None \<Rightarrow> Inl (KeyError (key @ '':'' @ subkey))
      | Some v \<Rightarrow> stats_dct stats key rest (AList.update subkey v dct))"

text \<open>The loop over \<open>base_keys\<close>, with \<open>stats_collector\<close> as the accumulator.\<close>

fun format_stats_loop :: "PrimitiveDict \<Rightarrow> string list \<Rightarrow> StatsDict
    \<Rightarrow> py_exception + StatsDict" where
  "format_stats_loop stats [] stats_collector = Inr stats_collector"
| "format_stats_loop stats (key # keys) stats_collector =
     (case stats_dct stats key subkeys [(''id'', PStr key)] of
        Inl e \<Rightarrow> Inl e
      | Inr dct \<Rightarrow>
         (case StatsItem_from_dict dct of
            None \<Rightarrow> format_stats_loop stats keys stats_collector
          | Some stats_item \<Rightarrow>
              if include_s stats_item
              then format_stats_loop stats keys (AList.update key stats_item stats_collector)
              else format_stats_loop stats keys stats_collector))"

definition has_stats_item :: "StatsDict \<Rightarrow> StatsItem" where
  "has_stats_item stats_collector =
     \<lparr>id_s = ''has_stats'',
      label_s = ''Has Stats?'',
      value_s = PBool (length stats_collector > 0),
      description_s = ''Indicates whether there are statistics for this table'',
      include_s = False\<rparr>"

definition format_stats :: "PrimitiveDict \<Rightarrow> py_exception + StatsDict" where
  "format_stats stats =
     (case format_stats_loop stats (base_keys stats) [] of
        Inl e \<Rightarrow> Inl e
      | Inr stats_collector \<Rightarrow>
          Inr (AList.update ''has_stats'' (has_stats_item stats_collector) stats_collector))"

section \<open>Catalog tables\<close>

text \<open>
  Modelled from the spec: the classes \<open>TableMetadata\<close>, \<open>ColumnMetadata\<close>, \<open>CatalogTable\<close>
  and \<open>CatalogKey\<close> of \<open>dbt.contracts.results\<close>, which are not part of \<open>generate.py\<close>.
  The metadata of a table holds the table-level fields of the row: the identity fields
  \<open>database\<close>, \<open>schema\<close> and \<open>name\<close>, kept as they arrived, and the whole mapping of
  table-level primitive fields. A column has a type, an index, a name and an optional
  comment. A table has its metadata, its columns by name, its statistics by id and, once
  matched, a unique id. A key is the triple of database, schema and table name.
\<close>

record TableMetadata =
  database_t :: prim
  schema_t :: prim
  name_t :: prim
  fields_t :: PrimitiveDict

record ColumnMetadata =
  type_c :: string
  index_c :: int
  name_c :: string
  comment_c :: "string option"

type_synonym CatalogKey = "string \<times> string \<times> string"

record CatalogTable =
  metadata :: TableMetadata
  columns :: "(string \<times> ColumnMetadata) list"
  stats :: StatsDict
  unique_id :: "string option"

text \<open>
  Modelled from the spec: \<open>TableMetadata.from_dict\<close>, applied to the fields of the row with
  the \<open>table_\<close> prefix cut off. The spec names no validation of the table-level fields
  (they are arbitrary primitive fields); the construction fails (\<open>None\<close>, a
  \<open>ValidationError\<close>) only when an identity field is absent.
\<close>

definition TableMetadata_from_dict :: "PrimitiveDict \<Rightarrow> TableMetadata option" where
  "TableMetadata_from_dict d =
     (case (map_of d ''database'', map_of d ''schema'', map_of d ''name'') of
        (Some db, Some sc, Some nm) \<Rightarrow>
          Some \<lparr>database_t = db, schema_t = sc, name_t = nm, fields_t = d\<rparr>
      | _ \<Rightarrow> None)"

text \<open>
  An optional string field: absent or \<open>None\<close> (no value), or a string; anything else is
  invalid (the outer \<open>None\<close>).
\<close>

fun optional_str :: "prim option \<Rightarrow> string option option" where
  "optional_str None = Some None"
| "optional_str (Some PNone) = Some None"
| "optional_str (Some (PStr c)) = Some (Some c)"
| "optional_str (Some _) = None"

text \<open>
  Modelled from the spec: \<open>ColumnMetadata.from_dict\<close>. The spec gives the shape of a column:
  name (string), type (string), index (integer), optional comment; a record of another
  shape fails validation (\<open>None\<close>, a \<open>ValidationError\<close>). The index that reaches the
  constructor is the integer \<open>int\<close> returned; the spec describes no check of its range and
  no error for it, and none is modelled.
\<close>

definition ColumnMetadata_from_dict :: "PrimitiveDict \<Rightarrow> ColumnMetadata option" where
  "ColumnMetadata_from_dict d =
     (case (map_of d ''type'', map_of d ''index'', map_of d ''name'',
            optional_str (map_of d ''comment'')) of
        (Some (PStr ty), Some (PInt i), Some (PStr nm), Some cm) \<Rightarrow>
          Some \<lparr>type_c = ty, index_c = i, name_c = nm, comment_c = cm\<rparr>
      | _ \<Rightarrow> None)"

text \<open>
  Modelled from the spec: \<open>CatalogTable.key\<close>, the normalized key under which a table is
  looked up in the manifest index: database, schema and name of its metadata, stringified
  and lower-cased.
\<close>

definition key :: "CatalogTable \<Rightarrow> CatalogKey" where
  "key table =
     (lower (py_str (database_t (metadata table))),
      lower (py_str (schema_t (metadata table))),
      lower (py_str (name_t (metadata table))))"

text \<open>
  The exceptions of the task: the ones of the built-ins and of validation, the
  \<open>CompilationException\<close> of \<open>get_table\<close> (its message shows the missing key and the row)
  and the one of \<open>raise_ambiguous_catalog_match\<close> (a function of \<open>dbt.exceptions\<close>; it
  raises, with the unique id and the two tables).
\<close>

datatype exn =
    Raised py_exception
  | CompilationException string PrimitiveDict
  | AmbiguousCatalogMatch string CatalogTable CatalogTable

definition build_catalog_table :: "PrimitiveDict \<Rightarrow> exn + CatalogTable" where
  "build_catalog_table data =
     (case TableMetadata_from_dict (get_stripped_prefix data ''table_'') of
        None \<Rightarrow> Inl (Raised ValidationError)
      | Some metadata' \<Rightarrow>
         (case format_stats (get_stripped_prefix data ''stats:'') of
            Inl e \<Rightarrow> Inl (Raised e)
          | Inr stats' \<Rightarrow>
              Inr \<lparr>metadata = metadata', columns = [], stats = stats', unique_id = None\<rparr>))"

section \<open>The catalog\<close>

text \<open>
  \<open>Catalog\<close> is a dict from \<open>CatalogKey\<close> to \<open>CatalogTable\<close>. Its methods mutate it, also
  before they raise: each method takes the catalog and returns the catalog it leaves
  behind, next to its result or exception.
\<close>

type_synonym Catalog = "(CatalogKey \<times> CatalogTable) list"

text \<open>
  The \<open>try\<close> block of \<open>get_table\<close>: the three subscripts in the order of the source; the
  first absent key is the one the exception shows.
\<close>

definition catalog_key :: "PrimitiveDict \<Rightarrow> exn + CatalogKey" where
  "catalog_key data =
     (case map_of data ''table_database'' of
        None \<Rightarrow> Inl (CompilationException ''table_database'' data)
      | Some db \<Rightarrow>
         (case map_of data ''table_schema'' of
            None \<Rightarrow> Inl (CompilationException ''table_schema'' data)
          | Some sc \<Rightarrow>
             (case map_of data ''table_name'' of
                None \<Rightarrow> Inl (CompilationException ''table_name'' data)
              | Some nm \<Rightarrow> Inr (py_str db, py_str sc, py_str nm))))"

text \<open>
  \<open>get_table\<close> returns a reference to the table stored under the key: the model returns
  the key with the table, and the caller writes the changed table back under that key.
\<close>

definition get_table :: "PrimitiveDict \<Rightarrow> Catalog \<Rightarrow> (exn + CatalogKey \<times> CatalogTable) \<times> Catalog" where
  "get_table data self =
     (case catalog_key data of
        Inl e \<Rightarrow> (Inl e, self)
      | Inr k \<Rightarrow>
         (case map_of self k of
            Some table \<Rightarrow> (Inr (k, table), self)
          | None \<Rightarrow>
             (case build_catalog_table data of
                Inl e \<Rightarrow> (Inl e, self)
              | Inr table \<Rightarrow> (Inr (k, table), AList.update k table self))))"

text \<open>Lines 83 to 88 of \<open>add_column\<close>: the column of a row.\<close>

definition column_of :: "PrimitiveDict \<Rightarrow> exn + ColumnMetadata" where
  "column_of data =
     (let column_data = get_stripped_prefix data ''column_''
      in case map_of column_data ''index'' of
           None \<Rightarrow> Inl (Raised (KeyError ''index''))
         | Some v \<Rightarrow>
            (case py_int v of
               Inl e \<Rightarrow> Inl (Raised e)
             | Inr i \<Rightarrow>
                (case ColumnMetadata_from_dict (AList.update ''index'' (PInt i) column_data) of
                   None \<Rightarrow> Inl (Raised ValidationError)
                 | Some column \<Rightarrow> Inr column)))"

definition add_column :: "PrimitiveDict \<Rightarrow> Catalog \<Rightarrow> exn option \<times> Catalog" where
  "add_column data self =
     (case get_table data self of
        (Inl e, self') \<Rightarrow> (Some e, self')
      | (Inr (k, table), self') \<Rightarrow>
         (case column_of data of
            Inl e \<Rightarrow> (Some e, self')
          | Inr column \<Rightarrow>
              (None,
               AList.update k
                 (table\<lparr>columns := AList.update (name_c column) column (columns table)\<rparr>)
                 self')))"

text \<open>The loop of \<open>__init__\<close>: it stops at the first exception.\<close>

fun add_columns :: "PrimitiveDict list \<Rightarrow> Catalog \<Rightarrow> exn option \<times> Catalog" where
  "add_columns [] self = (None, self)"
| "add_columns (col # cols) self =
     (case add_column col self of
        (Some e, self') \<Rightarrow> (Some e, self')
      | (None, self') \<Rightarrow> add_columns cols self')"

text \<open>
  The constructor: a caller gets the catalog when no row raised, and the exception
  otherwise.
\<close>

definition Catalog :: "PrimitiveDict list \<Rightarrow> exn + Catalog" where
  "Catalog cols =
     (case add_columns cols [] of
        (Some e, self) \<Rightarrow> Inl e
      | (None, self) \<Rightarrow> Inr self)"

section \<open>Matching the manifest\<close>

text \<open>
  Modelled from the spec: a node of the manifest, with the database, schema and identifier
  strings of its relation; \<open>manifest.nodes\<close> is a dict from unique id to node.
\<close>

record CompileResultNode =
  database_n :: string
  schema_n :: string
  identifier_n :: string

record Manifest =
  nodes :: "(string \<times> CompileResultNode) list"

definition mapping_key :: "CompileResultNode \<Rightarrow> CatalogKey" where
  "mapping_key node = (lower (database_n node), lower (schema_n node), lower (identifier_n node))"

text \<open>\<open>d.get(k, [])\<close>.\<close>

definition get_default :: "('k \<times> 'v list) list \<Rightarrow> 'k \<Rightarrow> 'v list" where
  "get_default d k = (case map_of d k of None \<Rightarrow> [] | Some v \<Rightarrow> v)"

text \<open>
  The loop of \<open>get_unique_id_mapping\<close> over \<open>manifest.nodes.items()\<close>: a key that is not
  in \<open>ident_map\<close> yet is bound to the empty list, then the unique id is appended to the list
  of the key.
\<close>

fun ident_map_loop :: "(string \<times> CompileResultNode) list \<Rightarrow> (CatalogKey \<times> string list) list
    \<Rightarrow> (CatalogKey \<times> string list) list" where
  "ident_map_loop [] ident_map = ident_map"
| "ident_map_loop ((uid, node) # rest) ident_map =
     (let k = mapping_key node
      in ident_map_loop rest (AList.update k (get_default ident_map k @ [uid]) ident_map))"

definition get_unique_id_mapping :: "Manifest \<Rightarrow> (CatalogKey \<times> string list) list" where
  "get_unique_id_mapping manifest = ident_map_loop (nodes manifest) []"

text \<open>The inner loop of \<open>make_unique_id_map\<close>, over the unique ids of one table.\<close>

fun add_unique_ids :: "CatalogTable \<Rightarrow> string list \<Rightarrow> (string \<times> CatalogTable) list
    \<Rightarrow> exn + (string \<times> CatalogTable) list" where
  "add_unique_ids table [] nodes' = Inr nodes'"
| "add_unique_ids table (uid # unique_ids) nodes' =
     (case map_of nodes' uid of
        Some other \<Rightarrow> Inl (AmbiguousCatalogMatch uid other table)
      | None \<Rightarrow>
          add_unique_ids table unique_ids
            (AList.update uid (table\<lparr>unique_id := Some uid\<rparr>) nodes'))"

text \<open>The outer loop, over \<open>self.values()\<close>.\<close>

fun unique_id_loop :: "(CatalogKey \<times> string list) list \<Rightarrow> CatalogTable list
    \<Rightarrow> (string \<times> CatalogTable) list \<Rightarrow> exn + (string \<times> CatalogTable) list" where
  "unique_id_loop manifest_mapping [] nodes' = Inr nodes'"
| "unique_id_loop manifest_mapping (table # tables) nodes' =
     (case add_unique_ids table (get_default manifest_mapping (key table)) nodes' of
        Inl e \<Rightarrow> Inl e
      | Inr nodes'' \<Rightarrow> unique_id_loop manifest_mapping tables nodes'')"

definition make_unique_id_map :: "Catalog \<Rightarrow> Manifest \<Rightarrow> exn + (string \<times> CatalogTable) list" where
  "make_unique_id_map self manifest =
     unique_id_loop (get_unique_id_mapping manifest) (map snd self) []"

text \<open>
  Lines 208 to 210 of \<open>GenerateTask.run\<close>: the catalog is built from the rows and then
  matched against the manifest.
\<close>

definition catalog_nodes :: "PrimitiveDict list \<Rightarrow> Manifest \<Rightarrow> exn + (string \<times> CatalogTable) list" where
  "catalog_nodes catalog_data manifest =
     (case Catalog catalog_data of
        Inl e \<Rightarrow> Inl e
      | Inr catalog \<Rightarrow> make_unique_id_map catalog manifest)"

section \<open>Notions used in the statements\<close>

text \<open>A table after \<open>table.columns[column.name] = column\<close>.\<close>

definition with_column :: "ColumnMetadata \<Rightarrow> CatalogTable \<Rightarrow> CatalogTable" where
  "with_column column table =
     table\<lparr>columns := AList.update (name_c column) column (columns table)\<rparr>"

text \<open>The first identity field, in the order of the source, that a row lacks.\<close>

definition first_missing :: "PrimitiveDict \<Rightarrow> string" where
  "first_missing data =
     (if map_of data ''table_database'' = None then ''table_database''
      else if map_of data ''table_schema'' = None then ''table_schema''
      else ''table_name'')"

text \<open>The value of a number: an integer or a finite float.\<close>

fun number_value :: "prim \<Rightarrow> rat option" where
  "number_value (PInt i) = Some (of_int i)"
| "number_value (PFloat (Finite q r)) = Some q"
| "number_value _ = None"

text \<open>The first row of a sequence that bears a key, under the key of \<open>get_table\<close>.\<close>

definition first_row :: "CatalogKey \<Rightarrow> PrimitiveDict list \<Rightarrow> PrimitiveDict option" where
  "first_row k rows = find (\<lambda>r. catalog_key r = Inr k) rows"

text \<open>
  The columns of the rows that bear a key, written one after the other into a column
  mapping, a later column replacing an earlier one of the same name.
\<close>

fun accumulate :: "CatalogKey \<Rightarrow> PrimitiveDict list \<Rightarrow> (string \<times> ColumnMetadata) list
    \<Rightarrow> (string \<times> ColumnMetadata) list" where
  "accumulate k [] cols = cols"
| "accumulate k (r # rows) cols =
     (if catalog_key r = Inr k
      then (case column_of r of
              Inr column \<Rightarrow> accumulate k rows (AList.update (name_c column) column cols)
            | Inl e \<Rightarrow> accumulate k rows cols)
      else accumulate k rows cols)"


text \<open>Rows used as examples.\<close>

definition row_no_schema :: PrimitiveDict where
  "row_no_schema =
     [(''table_database'', PStr ''D''), (''table_name'', PStr ''T''),
      (''table_type'', PStr ''BASE TABLE''), (''column_name'', PStr ''id''),
      (''column_index'', PInt 0), (''column_type'', PStr ''int'')]"

definition row_no_index :: PrimitiveDict where
  "row_no_index =
     [(''table_database'', PStr ''D''), (''table_schema'', PStr ''S''),
      (''table_name'', PStr ''T''), (''table_type'', PStr ''BASE TABLE''),
      (''column_name'', PStr ''id''), (''column_type'', PStr ''int'')]"

definition row_upper :: PrimitiveDict where
  "row_upper =
     [(''table_database'', PStr ''D''), (''table_schema'', PStr ''S''),
      (''table_name'', PStr ''T''), (''table_type'', PStr ''BASE TABLE''),
      (''column_name'', PStr ''id''),
      (''column_index'', PFloat (Finite 0 ''0.0'')), (''column_type'', PStr ''int'')]"

definition row_lower :: PrimitiveDict where
  "row_lower =
     [(''table_database'', PStr ''d''), (''table_schema'', PStr ''s''),
      (''table_name'', PStr ''t''), (''table_type'', PStr ''BASE TABLE''),
      (''column_name'', PStr ''id''),
      (''column_index'', PFloat (Finite 0 ''0.0'')), (''column_type'', PStr ''int'')]"

definition row_first :: PrimitiveDict where
  "row_first =
     [(''table_database'', PStr ''D''), (''table_schema'', PStr ''S''),
      (''table_name'', PStr ''T''), (''table_type'', PStr ''BASE TABLE''),
      (''stats:size:label'', PStr ''Size''), (''stats:size:value'', PInt 128),
      (''stats:size:description'', PStr ''Size of the table in MB''),
      (''stats:size:include'', PBool True),
      (''column_name'', PStr ''id''),
      (''column_index'', PFloat (Finite 0 ''0.0'')), (''column_type'', PStr ''int'')]"

definition row_second :: PrimitiveDict where
  "row_second =
     [(''table_database'', PStr ''D''), (''table_schema'', PStr ''S''),
      (''table_name'', PStr ''T''), (''table_type'', PStr ''VIEW''),
      (''column_name'', PStr ''label''),
      (''column_index'', PFloat (Finite 1 ''1.0'')), (''column_type'', PStr ''text'')]"

definition row_negative :: PrimitiveDict where
  "row_negative =
     [(''table_database'', PStr ''D''), (''table_schema'', PStr ''S''),
      (''table_name'', PStr ''T''), (''table_type'', PStr ''BASE TABLE''),
      (''column_name'', PStr ''id''),
      (''column_index'', PFloat (Finite (- 3 / 2) ''-1.5'')), (''column_type'', PStr ''int'')]"

definition row_fraction :: PrimitiveDict where
  "row_fraction =
     [(''table_database'', PStr ''D''), (''table_schema'', PStr ''S''),
      (''table_name'', PStr ''T''), (''table_type'', PStr ''BASE TABLE''),
      (''column_name'', PStr ''id''),
      (''column_index'', PFloat (Finite (5 / 2) ''2.5'')), (''column_type'', PStr ''int'')]"

definition row_partial_stats :: PrimitiveDict where
  "row_partial_stats =
     [(''table_database'', PStr ''D''), (''table_schema'', PStr ''S''),
      (''table_name'', PStr ''T''), (''table_type'', PStr ''BASE TABLE''),
      (''stats:rows:label'', PStr ''Rows''),
      (''column_name'', PStr ''id''), (''column_type'', PStr ''int'')]"

text \<open>Every stat id of a flat mapping has its four sub-keys.\<close>

definition complete :: "PrimitiveDict \<Rightarrow> bool" where
  "complete st =
     list_all (\<lambda>k. list_all (\<lambda>s. map_of st (k @ '':'' @ s) \<noteq> None) subkeys) (base_keys st)"

text \<open>A flat mapping without the keys of one stat id.\<close>

definition without_id :: "string \<Rightarrow> PrimitiveDict \<Rightarrow> PrimitiveDict" where
  "without_id k0 st = filter (\<lambda>(k, v). split_first k \<noteq> k0) st"

text \<open>
  A stat id passes the filter: its record has the four sub-keys, is valid, and its
  \<open>include\<close> is true.
\<close>

definition passes :: "PrimitiveDict \<Rightarrow> string \<Rightarrow> bool" where
  "passes st k =
     (case stats_dct st k subkeys [(''id'', PStr k)] of
        Inl e \<Rightarrow> False
      | Inr dct \<Rightarrow> (case StatsItem_from_dict dct of None \<Rightarrow> False | Some item \<Rightarrow> include_s item))"

text \<open>Flat statistics mappings used as examples.\<close>

definition stats_mixed :: PrimitiveDict where
  "stats_mixed =
     [(''size:label'', PStr ''Size''), (''size:value'', PInt 128),
      (''size:description'', PStr ''Size of the table in MB''), (''size:include'', PBool True),
      (''rows:label'', PInt 7), (''rows:value'', PInt 3),
      (''rows:description'', PStr ''Number of rows''), (''rows:include'', PBool True)]"

definition stats_partial :: PrimitiveDict where
  "stats_partial =
     [(''size:label'', PStr ''Size''), (''size:value'', PInt 128),
      (''size:description'', PStr ''Size of the table in MB''), (''size:include'', PBool True),
      (''rows:label'', PStr ''Rows'')]"

definition stats_rows :: PrimitiveDict where
  "stats_rows =
     [(''size:label'', PStr ''Size''), (''size:value'', PInt 128),
      (''size:description'', PStr ''Size of the table in MB''), (''size:include'', PBool False),
      (''rows:label'', PStr ''Rows''), (''rows:value'', PInt 3),
      (''rows:description'', PStr ''Number of rows''), (''rows:include'', PBool True)]"

definition stats_no_include :: PrimitiveDict where
  "stats_no_include =
     [(''size:label'', PStr ''Size''), (''size:value'', PInt 128),
      (''size:description'', PStr ''Size of the table in MB'')]"

text \<open>
  The record of a stat id, in the words of the spec: the id, and the values read under
  \<open><id>:label\<close>, \<open><id>:value\<close>, \<open><id>:description\<close> and \<open><id>:include\<close>, when all four
  are bound.
\<close>

definition stat_record :: "PrimitiveDict \<Rightarrow> string \<Rightarrow> PrimitiveDict option" where
  "stat_record st k =
     (case (map_of st (k @ '':'' @ ''label''), map_of st (k @ '':'' @ ''value''),
            map_of st (k @ '':'' @ ''description''), map_of st (k @ '':'' @ ''include'')) of
        (Some l, Some v, Some d, Some i) \<Rightarrow>
          Some [(''id'', PStr k), (''label'', l), (''value'', v), (''description'', d),
                (''include'', i)]
      | _ \<Rightarrow> None)"

text \<open>
  Every key of the mapping belongs to a stat id (the part of the key before its first
  colon) that has its four sub-keys.
\<close>

definition all_ids_complete :: "PrimitiveDict \<Rightarrow> bool" where
  "all_ids_complete st =
     list_all (\<lambda>(k, v). stat_record st (takeWhile (\<lambda>c. c \<noteq> CHR '':'') k) \<noteq> None) st"

text \<open>
  A stat survives the include filter: its id has no colon, its four sub-keys are bound,
  its record is valid and its \<open>include\<close> is true.
\<close>

definition included_stat :: "PrimitiveDict \<Rightarrow> string \<Rightarrow> bool" where
  "included_stat st k =
     (CHR '':'' \<notin> set k \<and>
      (case stat_record st k of
         None \<Rightarrow> False
       | Some dct \<Rightarrow>
          (case StatsItem_from_dict dct of None \<Rightarrow> False | Some item \<Rightarrow> include_s item)))"

text \<open>
  The unique ids of the manifest whose node has a given normalized key, in the order of
  the manifest.
\<close>

definition ids_for :: "Manifest \<Rightarrow> CatalogKey \<Rightarrow> string list" where
  "ids_for manifest k = map fst (filter (\<lambda>(uid, node). mapping_key node = k) (nodes manifest))"

text \<open>A table is matched when some node of the manifest has its normalized key.\<close>

definition matched :: "Manifest \<Rightarrow> CatalogTable \<Rightarrow> bool" where
  "matched manifest table = (ids_for manifest (key table) \<noteq> [])"

text \<open>The outcome is the exception of \<open>raise_ambiguous_catalog_match\<close>.\<close>

definition ambiguous :: "exn + 'a \<Rightarrow> bool" where
  "ambiguous res =
     (case res of
        Inl e \<Rightarrow> (case e of AmbiguousCatalogMatch uid a b \<Rightarrow> True | _ \<Rightarrow> False)
      | Inr r \<Rightarrow> False)"

text \<open>A table under each of a list of unique ids, as \<open>table.replace(unique_id=...)\<close>.\<close>

definition annotate :: "CatalogTable \<Rightarrow> string list \<Rightarrow> (string \<times> CatalogTable) list" where
  "annotate table uids = map (\<lambda>uid. (uid, table\<lparr>unique_id := Some uid\<rparr>)) uids"

text \<open>The entries the matching produces: for each table in turn, one per unique id.\<close>

definition pairs :: "Manifest \<Rightarrow> CatalogTable list \<Rightarrow> (string \<times> CatalogTable) list" where
  "pairs m ts = concat (map (\<lambda>t. annotate t (ids_for m (key t))) ts)"

text \<open>Manifests used as examples.\<close>

definition manifest_one :: Manifest where
  "manifest_one =
     \<lparr>nodes = [(''model.a'', \<lparr>database_n = ''D'', schema_n = ''S'', identifier_n = ''T''\<rparr>)]\<rparr>"

definition manifest_two :: Manifest where
  "manifest_two =
     \<lparr>nodes = [(''model.a'', \<lparr>database_n = ''D'', schema_n = ''S'', identifier_n = ''T''\<rparr>),
               (''source.b'', \<lparr>database_n = ''d'', schema_n = ''s'', identifier_n = ''t''\<rparr>)]\<rparr>"

section \<open>Dicts and prefixes\<close>

lemma update_fresh: "map_of al k = None \<Longrightarrow> AList.update k v al = al @ [(k, v)]"
  by (induction al) (auto split: if_splits)

lemma map_of_get_stripped_prefix:
  "map_of (get_stripped_prefix d p) s = map_of d (p @ s)"
proof (induction d)
  case Nil
  show ?case by (simp add: get_stripped_prefix_def)
next
  case (Cons kv d)
  obtain k v where kv: "kv = (k, v)" by (cases kv)
  have inj: "startswith k p \<Longrightarrow> (drop (length p) k = s) = (k = p @ s)"
    unfolding startswith_def by (metis append_take_drop_id append_eq_conv_conj)
  have no: "\<not> startswith k p \<Longrightarrow> k \<noteq> p @ s"
    unfolding startswith_def by auto
  from Cons show ?case
    using inj no by (auto simp: get_stripped_prefix_def kv)
qed

section \<open>Adding rows\<close>

lemma with_column_idem: "with_column c (with_column c t) = with_column c t"
  by (simp add: with_column_def)

text \<open>When \<open>add_column\<close> returns normally, and what it leaves behind.\<close>

lemma add_column_success:
  "add_column r self = (None, self') \<longleftrightarrow>
     (\<exists>k col. catalog_key r = Inr k \<and> column_of r = Inr col \<and>
        (case map_of self k of
           Some t \<Rightarrow> self' = AList.update k (with_column col t) self
         | None \<Rightarrow> (\<exists>t. build_catalog_table r = Inr t \<and>
                      self' = AList.update k (with_column col t) self)))"
  by (auto simp: add_column_def get_table_def with_column_def
      split: sum.splits option.splits prod.splits)

lemma add_column_twice:
  assumes "add_column r self = (None, self')"
  shows "add_column r self' = (None, self')"
proof -
  from assms obtain k col where k: "catalog_key r = Inr k" and col: "column_of r = Inr col"
    and c: "case map_of self k of
           Some t \<Rightarrow> self' = AList.update k (with_column col t) self
         | None \<Rightarrow> (\<exists>t. build_catalog_table r = Inr t \<and>
                      self' = AList.update k (with_column col t) self)"
    unfolding add_column_success by blast
  from c obtain t where s': "self' = AList.update k (with_column col t) self"
    by (auto split: option.splits)
  have m: "map_of self' k = Some (with_column col t)"
    by (simp add: s' update_conv')
  have "AList.update k (with_column col (with_column col t)) self' = self'"
    by (simp add: with_column_idem m update_triv)
  then show ?thesis
    unfolding add_column_success using k col m by auto
qed

lemma add_columns_append:
  "add_columns (xs @ ys) self =
     (case add_columns xs self of
        (Some e, s) \<Rightarrow> (Some e, s)
      | (None, s) \<Rightarrow> add_columns ys s)"
  by (induction xs arbitrary: self) (auto split: prod.splits option.splits)

lemma py_int_number: "number_value v = Some q \<Longrightarrow> py_int v = Inr (trunc q)"
  by (induction v rule: number_value.induct) (auto simp: trunc_def)

text \<open>What a run of \<open>add_column\<close> over rows leaves under each key.\<close>

lemma add_column_lookup:
  assumes "add_column r self = (None, self')"
  shows "\<exists>k0 col. catalog_key r = Inr k0 \<and> column_of r = Inr col \<and>
           (\<forall>k. k \<noteq> k0 \<longrightarrow> map_of self' k = map_of self k) \<and>
           (case map_of self k0 of
              Some t \<Rightarrow> map_of self' k0 = Some (with_column col t)
            | None \<Rightarrow> (\<exists>t. build_catalog_table r = Inr t \<and> map_of self' k0 = Some (with_column col t)))"
  using assms unfolding add_column_success
  by (auto simp: update_conv' split: option.splits)

lemma build_catalog_table_columns:
  "build_catalog_table r = Inr t \<Longrightarrow> columns t = []"
  by (auto simp: build_catalog_table_def split: option.splits sum.splits)

lemma add_columns_present:
  "add_columns rows self = (None, self') \<Longrightarrow> map_of self k = Some t \<Longrightarrow>
   map_of self' k = Some (t\<lparr>columns := accumulate k rows (columns t)\<rparr>)"
proof (induction rows arbitrary: self t)
  case Nil
  then show ?case by simp
next
  case (Cons r rows)
  from Cons.prems(1) obtain s1 where s1: "add_column r self = (None, s1)"
    and rest: "add_columns rows s1 = (None, self')"
    by (auto split: prod.splits option.splits)
  from add_column_lookup [OF s1] obtain k0 col where
    k0: "catalog_key r = Inr k0" and col: "column_of r = Inr col"
    and other: "\<forall>k. k \<noteq> k0 \<longrightarrow> map_of s1 k = map_of self k"
    and same: "case map_of self k0 of
              Some t \<Rightarrow> map_of s1 k0 = Some (with_column col t)
            | None \<Rightarrow> (\<exists>t. build_catalog_table r = Inr t \<and> map_of s1 k0 = Some (with_column col t))"
    by blast
  show ?case
  proof (cases "k = k0")
    case True
    with same Cons.prems(2) have "map_of s1 k = Some (with_column col t)" by simp
    from Cons.IH [OF rest this] show ?thesis
      using True k0 col by (simp add: with_column_def)
  next
    case False
    with other Cons.prems(2) have "map_of s1 k = Some t" by metis
    from Cons.IH [OF rest this] show ?thesis
      using False k0 by auto
  qed
qed

lemma add_columns_absent:
  "add_columns rows self = (None, self') \<Longrightarrow> map_of self k = None \<Longrightarrow>
   (case first_row k rows of
      None \<Rightarrow> map_of self' k = None
    | Some r \<Rightarrow> (\<exists>t. build_catalog_table r = Inr t \<and>
                  map_of self' k = Some (t\<lparr>columns := accumulate k rows []\<rparr>)))"
proof (induction rows arbitrary: self)
  case Nil
  then show ?case by (simp add: first_row_def)
next
  case (Cons r rows)
  from Cons.prems(1) obtain s1 where s1: "add_column r self = (None, s1)"
    and rest: "add_columns rows s1 = (None, self')"
    by (auto split: prod.splits option.splits)
  from add_column_lookup [OF s1] obtain k0 col where
    k0: "catalog_key r = Inr k0" and col: "column_of r = Inr col"
    and other: "\<forall>k. k \<noteq> k0 \<longrightarrow> map_of s1 k = map_of self k"
    and same: "case map_of self k0 of
              Some t \<Rightarrow> map_of s1 k0 = Some (with_column col t)
            | None \<Rightarrow> (\<exists>t. build_catalog_table r = Inr t \<and> map_of s1 k0 = Some (with_column col t))"
    by blast
  show ?case
  proof (cases "k = k0")
    case True
    with same Cons.prems(2) obtain t where b: "build_catalog_table r = Inr t"
      and m: "map_of s1 k = Some (with_column col t)" by auto
    from add_columns_present [OF rest m] show ?thesis
      using True k0 col b build_catalog_table_columns [OF b]
      by (simp add: first_row_def with_column_def)
  next
    case False
    with other Cons.prems(2) have "map_of s1 k = None" by metis
    have acc: "accumulate k (r # rows) [] = accumulate k rows []"
      using False k0 by simp
    have fr: "first_row k (r # rows) = first_row k rows"
      using False k0 by (simp add: first_row_def)
    from Cons.IH [OF rest \<open>map_of s1 k = None\<close>] show ?thesis
      unfolding acc fr .
  qed
qed

lemma add_columns_distinct:
  "add_columns rows self = (None, self') \<Longrightarrow> distinct (map fst self) \<Longrightarrow>
   distinct (map fst self')"
proof (induction rows arbitrary: self)
  case Nil
  then show ?case by simp
next
  case (Cons r rows)
  from Cons.prems(1) obtain s1 where s1: "add_column r self = (None, s1)"
    and rest: "add_columns rows s1 = (None, self')"
    by (auto split: prod.splits option.splits)
  from s1 Cons.prems(2) have "distinct (map fst s1)"
    unfolding add_column_success by (auto simp: distinct_update split: option.splits)
  from Cons.IH [OF rest this] show ?case .
qed

lemma add_columns_rows_ok:
  "add_columns rows self = (None, self') \<Longrightarrow> r \<in> set rows \<Longrightarrow>
   \<exists>k col. catalog_key r = Inr k \<and> column_of r = Inr col"
proof (induction rows arbitrary: self)
  case Nil
  then show ?case by simp
next
  case (Cons a rows)
  from Cons.prems(1) obtain s1 where s1: "add_column a self = (None, s1)"
    and rest: "add_columns rows s1 = (None, self')"
    by (auto split: prod.splits option.splits)
  show ?case
  proof (cases "r = a")
    case True
    with s1 show ?thesis unfolding add_column_success by blast
  next
    case False
    with Cons.prems(2) have "r \<in> set rows" by simp
    from Cons.IH [OF rest this] show ?thesis .
  qed
qed

lemma first_row_None: "first_row k rows = None \<longleftrightarrow> (\<forall>r\<in>set rows. catalog_key r \<noteq> Inr k)"
  by (auto simp: first_row_def find_None_iff)

lemma catalog_key_Inr:
  "catalog_key r = Inr k \<longleftrightarrow>
   (\<exists>db sc nm. map_of r ''table_database'' = Some db \<and> map_of r ''table_schema'' = Some sc \<and>
      map_of r ''table_name'' = Some nm \<and> k = (py_str db, py_str sc, py_str nm))"
  by (auto simp: catalog_key_def split: option.splits)

section \<open>Parsing statistics\<close>

lemma set_update_subset: "set (AList.update k v al) \<subseteq> insert (k, v) (set al)"
  by (induction al) auto

lemma stats_dct_cong:
  "(\<And>s. s \<in> set ss \<Longrightarrow> map_of st1 (k @ '':'' @ s) = map_of st2 (k @ '':'' @ s)) \<Longrightarrow>
   stats_dct st1 k ss dct = stats_dct st2 k ss dct"
  by (induction ss arbitrary: dct) (auto split: option.splits)

lemma format_stats_loop_cong:
  "(\<And>k s. k \<in> set ks \<Longrightarrow> s \<in> set subkeys \<Longrightarrow>
      map_of st1 (k @ '':'' @ s) = map_of st2 (k @ '':'' @ s)) \<Longrightarrow>
   format_stats_loop st1 ks acc = format_stats_loop st2 ks acc"
proof (induction ks arbitrary: acc)
  case Nil
  show ?case by simp
next
  case (Cons k ks)
  have d: "stats_dct st1 k subkeys [(''id'', PStr k)] = stats_dct st2 k subkeys [(''id'', PStr k)]"
    by (rule stats_dct_cong) (rule Cons.prems, simp_all)
  have r: "format_stats_loop st1 ks a = format_stats_loop st2 ks a" for a
    by (rule Cons.IH) (rule Cons.prems, simp_all)
  show ?case by (simp add: d r split: sum.splits option.splits)
qed

lemma format_stats_loop_skip:
  assumes "stats_dct st k0 subkeys [(''id'', PStr k0)] = Inr dct"
    and "StatsItem_from_dict dct = None"
  shows "format_stats_loop st (filter (\<lambda>k. k \<noteq> k0) ks) acc = format_stats_loop st ks acc"
  using assms by (induction ks arbitrary: acc) (auto split: sum.splits option.splits)

lemma split_first_no_colon: "CHR '':'' \<notin> set (split_first k)"
  unfolding split_first_def by (induction k) auto

lemma split_first_id: "CHR '':'' \<notin> set k \<Longrightarrow> split_first (k @ CHR '':'' # s) = k"
  unfolding split_first_def by (induction k) auto

lemma base_keys_no_colon: "k \<in> set (base_keys st) \<Longrightarrow> CHR '':'' \<notin> set k"
  by (auto simp: base_keys_def split_first_no_colon)

lemma base_keys_without_id:
  "base_keys (without_id k0 st) = filter (\<lambda>k. k \<noteq> k0) (base_keys st)"
proof -
  have "map (\<lambda>(k, v). split_first k) (filter (\<lambda>(k, v). split_first k \<noteq> k0) st) =
        filter (\<lambda>k. k \<noteq> k0) (map (\<lambda>(k, v). split_first k) st)"
    by (induction st) auto
  then show ?thesis
    by (simp add: base_keys_def without_id_def remdups_filter)
qed

lemma map_of_filter_key:
  "map_of (filter (\<lambda>(k, v). P k) al) x = (if P x then map_of al x else None)"
  by (induction al) auto

lemma map_of_without_id:
  "k \<in> set (base_keys st) \<Longrightarrow> k \<noteq> k0 \<Longrightarrow>
   map_of (without_id k0 st) (k @ '':'' @ s) = map_of st (k @ '':'' @ s)"
  unfolding without_id_def
  by (simp add: map_of_filter_key split_first_id base_keys_no_colon)

lemma format_stats_loop_without_id:
  assumes "stats_dct st k0 subkeys [(''id'', PStr k0)] = Inr dct"
    and "StatsItem_from_dict dct = None"
  shows "format_stats_loop (without_id k0 st) (base_keys (without_id k0 st)) [] =
         format_stats_loop st (base_keys st) []"
proof -
  have "format_stats_loop (without_id k0 st) (filter (\<lambda>k. k \<noteq> k0) (base_keys st)) [] =
        format_stats_loop st (filter (\<lambda>k. k \<noteq> k0) (base_keys st)) []"
    by (rule format_stats_loop_cong) (rule map_of_without_id, auto)
  then show ?thesis
    by (simp add: base_keys_without_id format_stats_loop_skip [OF assms])
qed

lemma stats_dct_complete:
  "list_all (\<lambda>s. map_of st (k @ '':'' @ s) \<noteq> None) ss \<Longrightarrow> \<exists>d. stats_dct st k ss dct = Inr d"
  by (induction ss arbitrary: dct) auto

lemma format_stats_loop_complete:
  "list_all (\<lambda>k. list_all (\<lambda>s. map_of st (k @ '':'' @ s) \<noteq> None) subkeys) ks \<Longrightarrow>
   \<exists>coll. format_stats_loop st ks acc = Inr coll"
proof (induction ks arbitrary: acc)
  case Nil
  show ?case by simp
next
  case (Cons k ks)
  from Cons.prems obtain d where d: "stats_dct st k subkeys [(''id'', PStr k)] = Inr d"
    using stats_dct_complete by fastforce
  from Cons.prems have "list_all (\<lambda>k. list_all (\<lambda>s. map_of st (k @ '':'' @ s) \<noteq> None) subkeys) ks"
    by simp
  from Cons.IH [OF this] show ?case
    by (simp add: d split: option.splits)
qed

lemma stats_dct_id:
  "stats_dct st k ss dct = Inr d \<Longrightarrow> ''id'' \<notin> set ss \<Longrightarrow> map_of d ''id'' = map_of dct ''id''"
  by (induction ss arbitrary: dct) (auto simp: update_conv' split: option.splits)

lemma item_id:
  assumes "stats_dct st k subkeys [(''id'', PStr k)] = Inr d" and "StatsItem_from_dict d = Some item"
  shows "id_s item = k"
proof -
  have "map_of d ''id'' = Some (PStr k)"
    using stats_dct_id [OF assms(1)] by (simp add: subkeys_def)
  with assms(2) show ?thesis
    by (auto simp: StatsItem_from_dict_def split: option.splits prim.splits if_splits)
qed

text \<open>The collector after the loop: the ids that pass, each under its own id.\<close>

lemma format_stats_loop_collector:
  "format_stats_loop st ks acc = Inr coll \<Longrightarrow>
   fst ` set coll = fst ` set acc \<union> {k \<in> set ks. passes st k} \<and>
   (distinct (map fst acc) \<longrightarrow> distinct (map fst coll)) \<and>
   ((\<forall>(k, item) \<in> set acc. id_s item = k) \<longrightarrow> (\<forall>(k, item) \<in> set coll. id_s item = k)) \<and>
   (\<forall>k. k \<notin> set ks \<longrightarrow> map_of coll k = map_of acc k)"
proof (induction ks arbitrary: acc)
  case Nil
  then show ?case by simp
next
  case (Cons k ks)
  from Cons.prems obtain d where d: "stats_dct st k subkeys [(''id'', PStr k)] = Inr d"
    by (auto split: sum.splits)
  show ?case
  proof (cases "StatsItem_from_dict d")
    case None
    with d Cons.prems have "format_stats_loop st ks acc = Inr coll" by simp
    from Cons.IH [OF this] show ?thesis
      using d None by (auto simp: passes_def)
  next
    case (Some item)
    show ?thesis
    proof (cases "include_s item")
      case False
      with d Some Cons.prems have "format_stats_loop st ks acc = Inr coll" by simp
      from Cons.IH [OF this] show ?thesis
        using d Some False by (auto simp: passes_def)
    next
      case True
      with d Some Cons.prems have "format_stats_loop st ks (AList.update k item acc) = Inr coll"
        by simp
      note ih = Cons.IH [OF this]
      have p: "passes st k" using d Some True by (simp add: passes_def)
      have i: "id_s item = k" by (rule item_id [OF d Some])
      have s: "set (AList.update k item acc) \<subseteq> insert (k, item) (set acc)"
        by (rule set_update_subset)
      from ih show ?thesis
        using p i s by (auto simp: dom_update distinct_update update_conv')
    qed
  qed
qed


lemma filter_key_distinct:
  "distinct (map fst al) \<Longrightarrow> map_of al k = Some v \<Longrightarrow>
   filter (\<lambda>(k', v'). k' = k) al = [(k, v)]"
proof (induction al)
  case Nil
  then show ?case by simp
next
  case (Cons a al)
  obtain k1 v1 where a: "a = (k1, v1)" by (cases a)
  show ?case
  proof (cases "k1 = k")
    case True
    with Cons.prems a have "k \<notin> fst ` set al" and "v1 = v" by auto
    then have "filter (\<lambda>(k', v'). k' = k) al = []"
      by (force simp: filter_empty_conv)
    with True a \<open>v1 = v\<close> show ?thesis by simp
  next
    case False
    with Cons a show ?thesis by auto
  qed
qed

section \<open>Matching\<close>

lemma get_default_update:
  "get_default (AList.update k v d) k' = (if k' = k then v else get_default d k')"
  by (simp add: get_default_def update_conv')

lemma ident_map_loop_get:
  "get_default (ident_map_loop ns im) k =
     get_default im k @ map fst (filter (\<lambda>(uid, node). mapping_key node = k) ns)"
  by (induction ns arbitrary: im) (auto simp: get_default_update Let_def)

lemma get_unique_id_mapping_get:
  "get_default (get_unique_id_mapping m) k = ids_for m k"
  using ident_map_loop_get [of "nodes m" "[]" k]
  by (simp add: get_unique_id_mapping_def ids_for_def get_default_def)

lemma add_unique_ids_Inr:
  "add_unique_ids t uids acc = Inr res \<longleftrightarrow>
     distinct uids \<and> (\<forall>u\<in>set uids. map_of acc u = None) \<and> res = acc @ annotate t uids"
proof (induction uids arbitrary: acc)
  case Nil
  show ?case by (auto simp: annotate_def)
next
  case (Cons u uids)
  show ?case
  proof (cases "map_of acc u")
    case None
    have m: "map_of (acc @ [(u, t\<lparr>unique_id := Some u\<rparr>)]) x =
             (if x = u then Some (t\<lparr>unique_id := Some u\<rparr>) else map_of acc x)" for x
      using None by (auto simp: map_add_def split: option.splits)
    show ?thesis
      using None by (auto simp: Cons.IH update_fresh m annotate_def)
  next
    case (Some a)
    then show ?thesis by auto
  qed
qed

lemma add_unique_ids_Inl:
  "add_unique_ids t uids acc = Inl e \<Longrightarrow> \<exists>u a b. e = AmbiguousCatalogMatch u a b"
  by (induction uids arbitrary: acc) (auto split: option.splits)

lemma map_of_append_None:
  "map_of (xs @ ys) u = None \<longleftrightarrow> map_of xs u = None \<and> map_of ys u = None"
  by (auto simp: map_add_def split: option.splits)

lemma map_of_annotate_None: "map_of (annotate t uids) u = None \<longleftrightarrow> u \<notin> set uids"
  by (auto simp: annotate_def map_of_eq_None_iff image_iff)

lemma fst_annotate: "map fst (annotate t uids) = uids"
  by (simp add: annotate_def comp_def)

lemma fst_set_annotate: "fst ` set (annotate t uids) = set uids"
  by (force simp: annotate_def)

lemma unique_id_loop_Inr:
  "unique_id_loop (get_unique_id_mapping m) ts acc = Inr res \<longleftrightarrow>
     distinct (map fst (pairs m ts)) \<and> (\<forall>u\<in>fst ` set (pairs m ts). map_of acc u = None) \<and>
     res = acc @ pairs m ts"
proof (induction ts arbitrary: acc res)
  case Nil
  show ?case by (auto simp: pairs_def)
next
  case (Cons t ts)
  let ?a = "annotate t (ids_for m (key t))"
  have p: "pairs m (t # ts) = ?a @ pairs m ts"
    by (simp add: pairs_def)
  have "unique_id_loop (get_unique_id_mapping m) (t # ts) acc = Inr res \<longleftrightarrow>
        (distinct (ids_for m (key t)) \<and> (\<forall>u\<in>set (ids_for m (key t)). map_of acc u = None) \<and>
         unique_id_loop (get_unique_id_mapping m) ts (acc @ ?a) = Inr res)"
  proof (cases "add_unique_ids t (ids_for m (key t)) acc")
    case (Inl e)
    then have "\<not> (distinct (ids_for m (key t)) \<and> (\<forall>u\<in>set (ids_for m (key t)). map_of acc u = None))"
      using add_unique_ids_Inr [of t "ids_for m (key t)" acc "acc @ ?a"] by auto
    with Inl show ?thesis
      by (auto simp: get_unique_id_mapping_get)
  next
    case (Inr r)
    then show ?thesis
      using add_unique_ids_Inr [of t "ids_for m (key t)" acc r]
      by (auto simp: get_unique_id_mapping_get)
  qed
  also have "\<dots> \<longleftrightarrow>
        (distinct (ids_for m (key t)) \<and> (\<forall>u\<in>set (ids_for m (key t)). map_of acc u = None) \<and>
         distinct (map fst (pairs m ts)) \<and>
         (\<forall>u\<in>fst ` set (pairs m ts). map_of (acc @ ?a) u = None) \<and>
         res = (acc @ ?a) @ pairs m ts)"
    unfolding Cons.IH by simp
  also have "\<dots> \<longleftrightarrow>
        (distinct (map fst (pairs m (t # ts))) \<and>
         (\<forall>u\<in>fst ` set (pairs m (t # ts)). map_of acc u = None) \<and>
         res = acc @ pairs m (t # ts))"
    unfolding p map_of_append_None map_of_annotate_None
    by (auto simp: fst_annotate fst_set_annotate image_Un)
  finally show ?case .
qed


lemma unique_id_loop_Inl:
  "unique_id_loop im ts acc = Inl e \<Longrightarrow> \<exists>u a b. e = AmbiguousCatalogMatch u a b"
  by (induction ts arbitrary: acc) (auto split: sum.splits dest: add_unique_ids_Inl)

lemma make_unique_id_map_cases:
  "ambiguous (make_unique_id_map c m) \<longleftrightarrow> (\<forall>res. make_unique_id_map c m \<noteq> Inr res)"
proof (cases "make_unique_id_map c m")
  case (Inl e)
  then obtain u a b where "e = AmbiguousCatalogMatch u a b"
    unfolding make_unique_id_map_def using unique_id_loop_Inl by blast
  with Inl show ?thesis by (simp add: ambiguous_def)
next
  case (Inr r)
  then show ?thesis by (simp add: ambiguous_def)
qed

lemma fst_pairs: "map fst (pairs m ts) = concat (map (\<lambda>t. ids_for m (key t)) ts)"
  by (induction ts) (simp_all add: pairs_def fst_annotate)

lemma set_ids_for:
  "u \<in> set (ids_for m k) \<longleftrightarrow> (\<exists>n. (u, n) \<in> set (nodes m) \<and> mapping_key n = k)"
  by (auto simp: ids_for_def image_iff)

lemma distinct_ids_for: "distinct (map fst (nodes m)) \<Longrightarrow> distinct (ids_for m k)"
  unfolding ids_for_def by (rule distinct_map_filter)

lemma ids_for_disjoint:
  assumes "distinct (map fst (nodes m))" and "u \<in> set (ids_for m k)" and "u \<in> set (ids_for m k')"
  shows "k = k'"
proof -
  from assms(2,3) obtain n n' where n: "(u, n) \<in> set (nodes m)" "mapping_key n = k"
    and n': "(u, n') \<in> set (nodes m)" "mapping_key n' = k'"
    unfolding set_ids_for by blast
  from assms(1) n(1) n'(1) have "n = n'" by (rule eq_key_imp_eq_value)
  with n(2) n'(2) show ?thesis by simp
qed

lemma distinct_pairs_iff:
  assumes d: "distinct (map fst (nodes m))"
  shows "distinct (map fst (pairs m ts)) \<longleftrightarrow> distinct (map key (filter (matched m) ts))"
proof (induction ts)
  case Nil
  show ?case by (simp add: pairs_def)
next
  case (Cons t ts)
  have inter: "(set (ids_for m (key t)) \<inter> (\<Union>t'\<in>set ts. set (ids_for m (key t'))) = {}) \<longleftrightarrow>
        \<not> (matched m t \<and> key t \<in> key ` set (filter (matched m) ts))"
  proof
    assume l: "set (ids_for m (key t)) \<inter> (\<Union>t'\<in>set ts. set (ids_for m (key t'))) = {}"
    show "\<not> (matched m t \<and> key t \<in> key ` set (filter (matched m) ts))"
    proof
      assume "matched m t \<and> key t \<in> key ` set (filter (matched m) ts)"
      then obtain t' where t': "t' \<in> set ts" "key t' = key t" and mt: "matched m t" by auto
      from mt obtain u where "u \<in> set (ids_for m (key t))"
        unfolding matched_def by (cases "ids_for m (key t)") auto
      with t' have "u \<in> (\<Union>t'\<in>set ts. set (ids_for m (key t')))" by (metis UN_I)
      with l \<open>u \<in> set (ids_for m (key t))\<close> show False by blast
    qed
  next
    assume r: "\<not> (matched m t \<and> key t \<in> key ` set (filter (matched m) ts))"
    show "set (ids_for m (key t)) \<inter> (\<Union>t'\<in>set ts. set (ids_for m (key t'))) = {}"
    proof (rule ccontr)
      assume "set (ids_for m (key t)) \<inter> (\<Union>t'\<in>set ts. set (ids_for m (key t'))) \<noteq> {}"
      then obtain u t' where u: "u \<in> set (ids_for m (key t))" and t': "t' \<in> set ts"
        and u': "u \<in> set (ids_for m (key t'))" by auto
      from ids_for_disjoint [OF d u u'] have k: "key t = key t'" .
      from u have mt: "matched m t" unfolding matched_def by auto
      from u' have "matched m t'" unfolding matched_def by auto
      with t' k have "key t \<in> key ` set (filter (matched m) ts)" by force
      with mt r show False by simp
    qed
  qed
  have "distinct (map fst (pairs m (t # ts))) \<longleftrightarrow>
        distinct (ids_for m (key t)) \<and> distinct (map fst (pairs m ts)) \<and>
        set (ids_for m (key t)) \<inter> (\<Union>t'\<in>set ts. set (ids_for m (key t'))) = {}"
    by (simp add: fst_pairs)
  also have "\<dots> \<longleftrightarrow> distinct (map key (filter (matched m) ts)) \<and>
        \<not> (matched m t \<and> key t \<in> key ` set (filter (matched m) ts))"
    unfolding inter Cons.IH using distinct_ids_for [OF d] by simp
  also have "\<dots> \<longleftrightarrow> distinct (map key (filter (matched m) (t # ts)))"
    by auto
  finally show ?case .
qed

lemma set_pairs:
  "(u, t') \<in> set (pairs m ts) \<longleftrightarrow>
     (\<exists>n t. (u, n) \<in> set (nodes m) \<and> t \<in> set ts \<and> mapping_key n = key t \<and>
            t' = t\<lparr>unique_id := Some u\<rparr>)"
proof -
  have a: "(u, t') \<in> set (annotate t uids) \<longleftrightarrow> u \<in> set uids \<and> t' = t\<lparr>unique_id := Some u\<rparr>"
    for t uids
    by (auto simp: annotate_def)
  have "(u, t') \<in> set (pairs m ts) \<longleftrightarrow>
        (\<exists>t\<in>set ts. (u, t') \<in> set (annotate t (ids_for m (key t))))"
    by (simp add: pairs_def)
  then show ?thesis
    unfolding a set_ids_for by blast
qed

lemma make_unique_id_map_Inr:
  "make_unique_id_map c m = Inr res \<longleftrightarrow>
     distinct (map fst (pairs m (map snd c))) \<and> res = pairs m (map snd c)"
  unfolding make_unique_id_map_def unique_id_loop_Inr by auto

section \<open>Further facts\<close>

lemma stats_dct_Inr_complete:
  "stats_dct st k ss dct = Inr d \<Longrightarrow> list_all (\<lambda>s. map_of st (k @ '':'' @ s) \<noteq> None) ss"
  by (induction ss arbitrary: dct) (auto split: option.splits)

lemma format_stats_loop_Inr_complete:
  "format_stats_loop st ks acc = Inr coll \<Longrightarrow>
   list_all (\<lambda>k. list_all (\<lambda>s. map_of st (k @ '':'' @ s) \<noteq> None) subkeys) ks"
proof (induction ks arbitrary: acc)
  case Nil
  show ?case by simp
next
  case (Cons k ks)
  from Cons.prems obtain d where d: "stats_dct st k subkeys [(''id'', PStr k)] = Inr d"
    by (auto split: sum.splits)
  from Cons.prems d obtain acc' where "format_stats_loop st ks acc' = Inr coll"
    by (auto split: option.splits if_splits)
  from Cons.IH [OF this] stats_dct_Inr_complete [OF d] show ?case by simp
qed

text \<open>\<open>format_stats\<close> returns exactly on the mappings in which every stat id has its four sub-keys.\<close>

lemma format_stats_returns_iff: "(\<exists>r. format_stats st = Inr r) \<longleftrightarrow> complete st"
proof
  assume "\<exists>r. format_stats st = Inr r"
  then obtain coll where "format_stats_loop st (base_keys st) [] = Inr coll"
    by (auto simp: format_stats_def split: sum.splits)
  from format_stats_loop_Inr_complete [OF this] show "complete st"
    by (simp add: complete_def)
next
  assume "complete st"
  then obtain coll where "format_stats_loop st (base_keys st) [] = Inr coll"
    unfolding complete_def using format_stats_loop_complete by blast
  then show "\<exists>r. format_stats st = Inr r"
    by (simp add: format_stats_def)
qed

text \<open>The loop of \<open>format_stats\<close> against the record and the filter of the spec.\<close>

lemma stats_dct_record:
  "stats_dct st k subkeys [(''id'', PStr k)] = Inr dct \<longleftrightarrow> stat_record st k = Some dct"
  by (auto simp: stat_record_def subkeys_def split: option.splits)

lemma stat_record_complete:
  "list_all (\<lambda>s. map_of st (k @ '':'' @ s) \<noteq> None) subkeys \<longleftrightarrow> stat_record st k \<noteq> None"
  by (auto simp: stat_record_def subkeys_def split: option.splits)

lemma all_ids_complete_iff: "all_ids_complete st \<longleftrightarrow> complete st"
  unfolding all_ids_complete_def complete_def stat_record_complete base_keys_def split_first_def
  by (auto simp: list_all_iff)

lemma passes_included:
  "CHR '':'' \<notin> set k \<Longrightarrow> passes st k = included_stat st k"
proof (cases "stat_record st k")
  case None
  assume "CHR '':'' \<notin> set k"
  have "\<And>dct. stats_dct st k subkeys [(''id'', PStr k)] \<noteq> Inr dct"
    using None by (simp add: stats_dct_record)
  then show ?thesis
    using None by (auto simp: passes_def included_stat_def split: sum.splits)
next
  case (Some dct)
  assume c: "CHR '':'' \<notin> set k"
  have "stats_dct st k subkeys [(''id'', PStr k)] = Inr dct"
    using Some by (simp add: stats_dct_record)
  then show ?thesis
    using Some c by (simp add: passes_def included_stat_def)
qed

lemma included_stat_base_key:
  assumes "included_stat st k"
  shows "k \<in> set (base_keys st)"
proof -
  from assms have c: "CHR '':'' \<notin> set k" and "stat_record st k \<noteq> None"
    by (auto simp: included_stat_def split: option.splits)
  then obtain l where "map_of st (k @ CHR '':'' # ''label'') = Some l"
    by (auto simp: stat_record_def split: option.splits)
  then have "(k @ CHR '':'' # ''label'', l) \<in> set st"
    by (rule map_of_SomeD)
  then have "split_first (k @ CHR '':'' # ''label'') \<in> set (base_keys st)"
    by (force simp: base_keys_def)
  then show ?thesis
    by (simp add: split_first_id [OF c])
qed

lemma some_passes_iff:
  "(\<exists>k\<in>set (base_keys st). passes st k) \<longleftrightarrow> (\<exists>k. included_stat st k)"
proof
  assume "\<exists>k\<in>set (base_keys st). passes st k"
  then obtain k where k: "k \<in> set (base_keys st)" and p: "passes st k" by blast
  from base_keys_no_colon [OF k] p have "included_stat st k"
    by (simp add: passes_included)
  then show "\<exists>k. included_stat st k" ..
next
  assume "\<exists>k. included_stat st k"
  then obtain k where i: "included_stat st k" ..
  then have c: "CHR '':'' \<notin> set k" by (simp add: included_stat_def)
  from i c have "passes st k" by (simp add: passes_included)
  with included_stat_base_key [OF i] show "\<exists>k\<in>set (base_keys st). passes st k" ..
qed

lemma first_row_key: "first_row k rows = Some r \<Longrightarrow> catalog_key r = Inr k"
  unfolding first_row_def by (induction rows) (auto split: if_splits)

text \<open>
  In a catalog the constructor returns, the normalized key of a table is the key it is
  stored under, lower-cased.
\<close>

lemma built_table_key:
  assumes "Catalog rows = Inr catalog" and "map_of catalog (a, b, c) = Some table"
  shows "key table = (lower a, lower b, lower c)"
proof -
  from assms(1) have run: "add_columns rows [] = (None, catalog)"
    by (auto simp: Catalog_def split: prod.splits option.splits)
  have "map_of [] (a, b, c) = (None :: CatalogTable option)" by simp
  from add_columns_absent [OF run this] assms(2)
  obtain r t where r: "first_row (a, b, c) rows = Some r"
    and t: "build_catalog_table r = Inr t" and m: "metadata table = metadata t"
    by (auto split: option.splits)
  from first_row_key [OF r] obtain db sc nm where
    f: "map_of r ''table_database'' = Some db" "map_of r ''table_schema'' = Some sc"
       "map_of r ''table_name'' = Some nm"
    and k: "(a, b, c) = (py_str db, py_str sc, py_str nm)"
    unfolding catalog_key_Inr by blast
  from t f have "database_t (metadata t) = db \<and> schema_t (metadata t) = sc \<and>
      name_t (metadata t) = nm"
    by (auto simp: build_catalog_table_def TableMetadata_from_dict_def
        map_of_get_stripped_prefix split: option.splits sum.splits)
  with m k show ?thesis
    by (simp add: key_def)
qed


section \<open>Claims\<close>

text \<open>
  C5. Feeding a row twice in a row gives the same catalog as feeding it once: for all rows
  \<open>xs\<close> before it and \<open>ys\<close> after it, the constructor returns the same catalog, or raises
  the same exception, on \<open>xs, r, r, ys\<close> as on \<open>xs, r, ys\<close>.
\<close>

theorem duplicate_row_idempotent:
  "Catalog (xs @ r # r # ys) = Catalog (xs @ r # ys)"
proof -
  have step: "add_columns (r # r # ys) s = add_columns (r # ys) s" for s
  proof (cases "add_column r s")
    case (Pair e s')
    show ?thesis
    proof (cases e)
      case None
      with Pair have "add_column r s' = (None, s')" by (simp add: add_column_twice)
      with Pair None show ?thesis by simp
    next
      case (Some a)
      with Pair show ?thesis by simp
    qed
  qed
  have "add_columns (xs @ r # r # ys) [] = add_columns (xs @ r # ys) []"
    unfolding add_columns_append using step by (simp split: prod.splits option.splits)
  then show ?thesis by (simp add: Catalog_def)
qed

text \<open>
  C8. A row that lacks one of \<open>table_database\<close>, \<open>table_schema\<close>, \<open>table_name\<close> makes
  \<open>get_table\<close>, and so \<open>add_column\<close>, raise a \<open>CompilationException\<close> that shows the
  missing key (the first one missing, in the order database, schema, name) and the row;
  the catalog is left as it was: no table is created or changed.
\<close>

theorem missing_identity_field:
  assumes "map_of data ''table_database'' = None \<or> map_of data ''table_schema'' = None
           \<or> map_of data ''table_name'' = None"
  shows "map_of data (first_missing data) = None \<and>
         get_table data self = (Inl (CompilationException (first_missing data) data), self) \<and>
         add_column data self = (Some (CompilationException (first_missing data) data), self)"
  using assms
  by (auto simp: first_missing_def add_column_def get_table_def catalog_key_def
      split: option.splits)

theorem missing_identity_field_witness:
  "map_of row_no_schema ''table_schema'' = None \<and>
   add_column row_no_schema [] =
     (Some (CompilationException ''table_schema'' row_no_schema), [])"
proof -
  have h: "map_of row_no_schema ''table_schema'' = None"
    by (simp add: row_no_schema_def)
  have f: "first_missing row_no_schema = ''table_schema''"
    by (simp add: first_missing_def row_no_schema_def)
  from missing_identity_field [of row_no_schema "[]"] h show ?thesis
    unfolding f by simp
qed

text \<open>
  C10 (as the code has it). A row with the three identity fields, for a key the catalog
  does not hold yet, without \<open>column_index\<close>, and whose table can be built (its table
  fields make the metadata \<open>m\<close> and its statistics parse to \<open>st\<close>): \<open>add_column\<close> raises
  \<open>KeyError('index')\<close> and leaves behind the catalog with the new table appended, with
  that metadata, those statistics and no column. The catalog is not the one it was.
\<close>

theorem missing_column_index:
  assumes db: "map_of data ''table_database'' = Some db"
    and sc: "map_of data ''table_schema'' = Some sc"
    and nm: "map_of data ''table_name'' = Some nm"
    and unseen: "map_of self (py_str db, py_str sc, py_str nm) = None"
    and m: "TableMetadata_from_dict (get_stripped_prefix data ''table_'') = Some m"
    and st: "format_stats (get_stripped_prefix data ''stats:'') = Inr st"
    and noidx: "map_of data ''column_index'' = None"
  shows "add_column data self =
           (Some (Raised (KeyError ''index'')),
            self @ [((py_str db, py_str sc, py_str nm),
                     \<lparr>metadata = m, columns = [], stats = st, unique_id = None\<rparr>)])
         \<and> self @ [((py_str db, py_str sc, py_str nm),
                     \<lparr>metadata = m, columns = [], stats = st, unique_id = None\<rparr>)] \<noteq> self"
proof -
  let ?k = "(py_str db, py_str sc, py_str nm)"
  have k: "catalog_key data = Inr ?k"
    by (simp add: catalog_key_def db sc nm)
  have b: "build_catalog_table data =
      Inr \<lparr>metadata = m, columns = [], stats = st, unique_id = None\<rparr>"
    by (simp add: build_catalog_table_def m st)
  have c: "column_of data = Inl (Raised (KeyError ''index''))"
    by (simp add: column_of_def map_of_get_stripped_prefix noidx)
  show ?thesis
    by (simp add: add_column_def get_table_def k unseen b c update_fresh)
qed

theorem missing_column_index_witness:
  "add_column row_no_index [] =
     (Some (Raised (KeyError ''index'')),
      [((''D'', ''S'', ''T''),
        \<lparr>metadata =
           \<lparr>database_t = PStr ''D'', schema_t = PStr ''S'', name_t = PStr ''T'',
            fields_t = [(''database'', PStr ''D''), (''schema'', PStr ''S''),
                        (''name'', PStr ''T''), (''type'', PStr ''BASE TABLE'')]\<rparr>,
         columns = [],
         stats = [(''has_stats'', has_stats_item [])],
         unique_id = None\<rparr>)])"
proof -
  have db: "map_of row_no_index ''table_database'' = Some (PStr ''D'')"
    by (simp add: row_no_index_def)
  have sc: "map_of row_no_index ''table_schema'' = Some (PStr ''S'')"
    by (simp add: row_no_index_def)
  have nm: "map_of row_no_index ''table_name'' = Some (PStr ''T'')"
    by (simp add: row_no_index_def)
  have unseen: "map_of ([] :: Catalog) (py_str (PStr ''D''), py_str (PStr ''S''), py_str (PStr ''T'')) = None"
    by simp
  have m: "TableMetadata_from_dict (get_stripped_prefix row_no_index ''table_'') =
      Some \<lparr>database_t = PStr ''D'', schema_t = PStr ''S'', name_t = PStr ''T'',
            fields_t = [(''database'', PStr ''D''), (''schema'', PStr ''S''),
                        (''name'', PStr ''T''), (''type'', PStr ''BASE TABLE'')]\<rparr>"
    by code_simp
  have st: "format_stats (get_stripped_prefix row_no_index ''stats:'') =
      Inr [(''has_stats'', has_stats_item [])]"
    by code_simp
  have noidx: "map_of row_no_index ''column_index'' = None"
    by (simp add: row_no_index_def)
  from missing_column_index [OF db sc nm unseen m st noidx] show ?thesis
    by simp
qed

text \<open>
  C10 as stated fails: when a stat id of such a row lacks a sub-key, the exception comes
  from building the table, before the table is stored, and the catalog is left unchanged.
\<close>

theorem stats_fail_before_insert_counterexample:
  "add_column row_partial_stats [] = (Some (Raised (KeyError ''rows:value'')), [])"
  by code_simp


text \<open>
  C6. When the constructor returns a catalog, the table under a key has the metadata and
  the statistics of the table built from the first row of the sequence that bears the
  key; its columns are the columns of all the rows bearing the key, written in order
  into the column mapping.
\<close>

theorem first_row_fixes_table:
  assumes "Catalog rows = Inr catalog" and "map_of catalog k = Some table"
  shows "\<exists>r t. first_row k rows = Some r \<and> build_catalog_table r = Inr t \<and>
           metadata table = metadata t \<and> stats table = stats t \<and>
           columns table = accumulate k rows []"
proof -
  from assms(1) have run: "add_columns rows [] = (None, catalog)"
    by (auto simp: Catalog_def split: prod.splits option.splits)
  have "map_of [] k = (None :: CatalogTable option)" by simp
  from add_columns_absent [OF run this] assms(2) show ?thesis
    by (auto split: option.splits)
qed

theorem first_row_fixes_table_witness:
  "Catalog [row_first, row_second] = Inr (projr (Catalog [row_first, row_second])) \<and>
   first_row (''D'', ''S'', ''T'') [row_first, row_second] = Some row_first \<and>
   map (\<lambda>(k, t). (map_of (fields_t (metadata t)) ''type'', map fst (stats t), map fst (columns t)))
     (projr (Catalog [row_first, row_second]))
   = [(Some (PStr ''BASE TABLE''), [''size'', ''has_stats''], [''id'', ''label''])]"
proof -
  have h: "Catalog [row_first, row_second] = Inr (projr (Catalog [row_first, row_second]))"
    by code_simp
  have m: "map_of (projr (Catalog [row_first, row_second])) (''D'', ''S'', ''T'')
      = Some (the (map_of (projr (Catalog [row_first, row_second])) (''D'', ''S'', ''T'')))"
    by code_simp
  have f: "first_row (''D'', ''S'', ''T'') [row_first, row_second] = Some row_first"
    by code_simp
  have v: "map (\<lambda>(k, t). (map_of (fields_t (metadata t)) ''type'', map fst (stats t), map fst (columns t)))
     (projr (Catalog [row_first, row_second]))
   = [(Some (PStr ''BASE TABLE''), [''size'', ''has_stats''], [''id'', ''label''])]"
    by code_simp
  from first_row_fixes_table [OF h m] h f v show ?thesis by blast
qed

text \<open>
  C2 (as the code has it). The key under which \<open>get_table\<close> groups a row is the triple of
  the stringified fields \<open>table_database\<close>, \<open>table_schema\<close>, \<open>table_name\<close>, with the
  letter case they arrived with. A catalog the constructor returns has one table for every
  such key borne by a row, and no two tables under one key.
\<close>

theorem catalog_keys_case_sensitive:
  assumes "Catalog rows = Inr catalog"
  shows "distinct (map fst catalog) \<and>
         fst ` set catalog = {k. \<exists>r\<in>set rows. catalog_key r = Inr k} \<and>
         (\<forall>r\<in>set rows. \<exists>db sc nm.
            map_of r ''table_database'' = Some db \<and> map_of r ''table_schema'' = Some sc \<and>
            map_of r ''table_name'' = Some nm \<and>
            catalog_key r = Inr (py_str db, py_str sc, py_str nm))"
proof -
  from assms(1) have run: "add_columns rows [] = (None, catalog)"
    by (auto simp: Catalog_def split: prod.splits option.splits)
  have d: "distinct (map fst catalog)"
    using add_columns_distinct [OF run] by simp
  have dom: "(k \<in> fst ` set catalog) = (\<exists>r\<in>set rows. catalog_key r = Inr k)" for k
  proof -
    have e: "map_of [] k = (None :: CatalogTable option)" by simp
    have "(map_of catalog k = None) = (first_row k rows = None)"
      using add_columns_absent [OF run e] by (auto split: option.splits)
    then have "(k \<notin> fst ` set catalog) = (\<forall>r\<in>set rows. catalog_key r \<noteq> Inr k)"
      by (simp add: first_row_None map_of_eq_None_iff)
    then show ?thesis by blast
  qed
  have rows: "\<forall>r\<in>set rows. \<exists>db sc nm.
            map_of r ''table_database'' = Some db \<and> map_of r ''table_schema'' = Some sc \<and>
            map_of r ''table_name'' = Some nm \<and>
            catalog_key r = Inr (py_str db, py_str sc, py_str nm)"
    using add_columns_rows_ok [OF run] catalog_key_Inr by blast
  from d dom rows show ?thesis by blast
qed

theorem catalog_keys_case_sensitive_witness:
  "Catalog [row_upper, row_second] = Inr (projr (Catalog [row_upper, row_second])) \<and>
   distinct (map fst (projr (Catalog [row_upper, row_second]))) \<and>
   map fst (projr (Catalog [row_upper, row_second])) = [(''D'', ''S'', ''T'')]"
proof -
  have h: "Catalog [row_upper, row_second] = Inr (projr (Catalog [row_upper, row_second]))"
    by code_simp
  have v: "map fst (projr (Catalog [row_upper, row_second])) = [(''D'', ''S'', ''T'')]"
    by code_simp
  from catalog_keys_case_sensitive [OF h] h v show ?thesis by blast
qed

text \<open>
  C2 as stated fails: two rows whose identity fields differ only in letter case are kept
  as two tables, under two keys.
\<close>

theorem case_variants_counterexample:
  "map_sum id (map fst) (Catalog [row_upper, row_lower]) =
     Inr [(''D'', ''S'', ''T''), (''d'', ''s'', ''t'')]"
  by code_simp

text \<open>
  C9 (as the code has it). A row for which \<open>get_table\<close> returns a table, with a string
  \<open>column_name\<close>, a string \<open>column_type\<close>, a comment that is absent, \<open>None\<close> or a string,
  and a \<open>column_index\<close> that is an integer or a finite float: \<open>add_column\<close> returns
  normally, and the table under the key of the row holds, under the column name, the column
  whose index is the value truncated towards zero. For a value that is not negative this
  is its floor, and it is not negative.
\<close>

theorem column_index_truncated:
  assumes gt: "get_table data self = (Inr (k, table), self1)"
    and idx: "map_of data ''column_index'' = Some v"
    and num: "number_value v = Some q"
    and nm: "map_of data ''column_name'' = Some (PStr nm)"
    and ty: "map_of data ''column_type'' = Some (PStr ty)"
    and cm: "optional_str (map_of data ''column_comment'') = Some cm"
  shows "\<exists>self' table'.
           add_column data self = (None, self') \<and> map_of self' k = Some table' \<and>
           map_of (columns table') nm =
             Some \<lparr>type_c = ty, index_c = trunc q, name_c = nm, comment_c = cm\<rparr> \<and>
           (0 \<le> q \<longrightarrow> trunc q = \<lfloor>q\<rfloor> \<and> 0 \<le> trunc q)"
proof -
  let ?col = "\<lparr>type_c = ty, index_c = trunc q, name_c = nm, comment_c = cm\<rparr>"
  let ?cd = "AList.update ''index'' (PInt (trunc q)) (get_stripped_prefix data ''column_'')"
  have look: "map_of ?cd s = (if s = ''index'' then Some (PInt (trunc q)) else map_of data (''column_'' @ s))" for s
    by (simp add: update_conv' map_of_get_stripped_prefix)
  have fd: "ColumnMetadata_from_dict ?cd = Some ?col"
    unfolding ColumnMetadata_from_dict_def look using nm ty cm by simp
  have c: "column_of data = Inr ?col"
    unfolding column_of_def Let_def
    by (simp add: map_of_get_stripped_prefix idx py_int_number [OF num] fd)
  have a: "add_column data self = (None, AList.update k (with_column ?col table) self1)"
    by (simp add: add_column_def gt c with_column_def)
  have m: "map_of (AList.update k (with_column ?col table) self1) k = Some (with_column ?col table)"
    by (simp add: update_conv')
  have n: "map_of (columns (with_column ?col table)) nm = Some ?col"
    by (simp add: with_column_def update_conv')
  have t: "0 \<le> q \<longrightarrow> trunc q = \<lfloor>q\<rfloor> \<and> 0 \<le> trunc q"
    by (simp add: trunc_def)
  from a m n t show ?thesis by blast
qed

theorem column_index_truncated_witness:
  "(0::rat) \<le> 5 / 2 \<and>
   (\<exists>self' table'.
      add_column row_fraction [] = (None, self') \<and>
      map_of self' (''D'', ''S'', ''T'') = Some table' \<and>
      map_of (columns table') ''id'' =
        Some \<lparr>type_c = ''int'', index_c = 2, name_c = ''id'', comment_c = None\<rparr>)"
proof -
  have g: "get_table row_fraction [] =
      (Inr ((''D'', ''S'', ''T''), projr (build_catalog_table row_fraction)),
       [((''D'', ''S'', ''T''), projr (build_catalog_table row_fraction))])"
    by code_simp
  have i: "map_of row_fraction ''column_index'' = Some (PFloat (Finite (5 / 2) ''2.5''))"
    by (simp add: row_fraction_def)
  have n: "number_value (PFloat (Finite (5 / 2) ''2.5'')) = Some (5 / 2)"
    by simp
  have nm: "map_of row_fraction ''column_name'' = Some (PStr ''id'')"
    by (simp add: row_fraction_def)
  have ty: "map_of row_fraction ''column_type'' = Some (PStr ''int'')"
    by (simp add: row_fraction_def)
  have cm: "optional_str (map_of row_fraction ''column_comment'') = Some None"
    by (simp add: row_fraction_def)
  have t: "trunc (5 / 2) = 2"
    by code_simp
  from column_index_truncated [OF g i n nm ty cm] show ?thesis
    unfolding t by auto
qed

text \<open>
  C9 as stated fails: the index \<open>-1.5\<close> does not exceed the safe range, and the index
  stored for it is \<open>-1\<close>, which is negative.
\<close>

theorem negative_index_counterexample:
  "add_column row_negative [] =
     (None,
      [((''D'', ''S'', ''T''),
        \<lparr>metadata =
           \<lparr>database_t = PStr ''D'', schema_t = PStr ''S'', name_t = PStr ''T'',
            fields_t = [(''database'', PStr ''D''), (''schema'', PStr ''S''),
                        (''name'', PStr ''T''), (''type'', PStr ''BASE TABLE'')]\<rparr>,
         columns =
           [(''id'', \<lparr>type_c = ''int'', index_c = - 1, name_c = ''id'', comment_c = None\<rparr>)],
         stats = [(''has_stats'', has_stats_item [])],
         unique_id = None\<rparr>)])"
  by code_simp

text \<open>
  C1 (as the code has it). In a flat mapping in which every stat id has its four sub-keys,
  a stat id whose record fails validation is dropped without an exception: \<open>format_stats\<close>
  returns, its result is the result for the mapping without the keys of that id, and the id
  is not bound in it.
\<close>

theorem invalid_stat_dropped:
  assumes c: "complete st"
    and k0: "k0 \<in> set (base_keys st)"
    and d: "stats_dct st k0 subkeys [(''id'', PStr k0)] = Inr dct"
    and v: "StatsItem_from_dict dct = None"
  shows "\<exists>r. format_stats st = Inr r \<and> format_stats (without_id k0 st) = Inr r \<and>
             (k0 \<noteq> ''has_stats'' \<longrightarrow> map_of r k0 = None)"
proof -
  from c obtain coll where coll: "format_stats_loop st (base_keys st) [] = Inr coll"
    unfolding complete_def using format_stats_loop_complete by blast
  let ?r = "AList.update ''has_stats'' (has_stats_item coll) coll"
  have r: "format_stats st = Inr ?r"
    by (simp add: format_stats_def coll)
  have w: "format_stats (without_id k0 st) = Inr ?r"
    by (simp add: format_stats_def format_stats_loop_without_id [OF d v] coll)
  have "\<not> passes st k0"
    by (simp add: passes_def d v)
  with format_stats_loop_collector [OF coll] have "k0 \<notin> fst ` set coll"
    by auto
  then have "map_of coll k0 = None"
    by (simp add: map_of_eq_None_iff)
  then have "k0 \<noteq> ''has_stats'' \<longrightarrow> map_of ?r k0 = None"
    by (simp add: update_conv')
  with r w show ?thesis by blast
qed

theorem invalid_stat_dropped_witness:
  "complete stats_mixed \<and>
   format_stats stats_mixed = format_stats (without_id ''rows'' stats_mixed) \<and>
   map_sum id (map fst) (format_stats stats_mixed) = Inr [''size'', ''has_stats'']"
proof -
  have c: "complete stats_mixed" by code_simp
  have k: "''rows'' \<in> set (base_keys stats_mixed)" by code_simp
  have d: "stats_dct stats_mixed ''rows'' subkeys [(''id'', PStr ''rows'')] =
      Inr [(''id'', PStr ''rows''), (''label'', PInt 7), (''value'', PInt 3),
           (''description'', PStr ''Number of rows''), (''include'', PBool True)]"
    by code_simp
  have v: "StatsItem_from_dict [(''id'', PStr ''rows''), (''label'', PInt 7), (''value'', PInt 3),
           (''description'', PStr ''Number of rows''), (''include'', PBool True)] = None"
    by code_simp
  have e: "map_sum id (map fst) (format_stats stats_mixed) = Inr [''size'', ''has_stats'']"
    by code_simp
  from invalid_stat_dropped [OF c k d v] c e show ?thesis by auto
qed

text \<open>
  C1 as stated fails: a stat id that lacks a sub-key is not dropped; the subscript raises
  \<open>KeyError\<close> and no statistics are returned, although the other id is complete and valid.
\<close>

theorem missing_subkey_counterexample:
  "format_stats stats_partial = Inl (KeyError ''rows:value'')"
  by code_simp


text \<open>
  C4 (as the code has it). For a flat mapping in which every stat id has its four
  sub-keys, \<open>format_stats\<close> returns, and its result has exactly one entry whose id is
  \<open>has_stats\<close>: the one under the key \<open>has_stats\<close>, with \<open>include\<close> false and with the value
  true exactly when some stat survives the include filter.
\<close>

theorem has_stats_entry:
  assumes c: "all_ids_complete st"
  shows "\<exists>r. format_stats st = Inr r \<and>
           filter (\<lambda>(k, item). id_s item = ''has_stats'') r =
             [(''has_stats'',
               \<lparr>id_s = ''has_stats'',
                label_s = ''Has Stats?'',
                value_s = PBool (\<exists>k. included_stat st k),
                description_s = ''Indicates whether there are statistics for this table'',
                include_s = False\<rparr>)]"
proof -
  from c have "complete st" by (simp add: all_ids_complete_iff)
  then obtain coll where coll: "format_stats_loop st (base_keys st) [] = Inr coll"
    unfolding complete_def using format_stats_loop_complete by blast
  let ?r = "AList.update ''has_stats'' (has_stats_item coll) coll"
  have r: "format_stats st = Inr ?r"
    by (simp add: format_stats_def coll)
  from format_stats_loop_collector [OF coll]
  have dom: "fst ` set coll = {k \<in> set (base_keys st). passes st k}"
    and dist: "distinct (map fst coll)"
    and ids: "\<forall>(k, item) \<in> set coll. id_s item = k"
    by auto
  have "(0 < length coll) = (fst ` set coll \<noteq> {})" by auto
  also have "\<dots> = (\<exists>k\<in>set (base_keys st). passes st k)"
    unfolding dom by blast
  also have "\<dots> = (\<exists>k. included_stat st k)"
    by (rule some_passes_iff)
  finally have val: "has_stats_item coll =
     \<lparr>id_s = ''has_stats'',
      label_s = ''Has Stats?'',
      value_s = PBool (\<exists>k. included_stat st k),
      description_s = ''Indicates whether there are statistics for this table'',
      include_s = False\<rparr>"
    by (simp add: has_stats_item_def)
  have sub: "set ?r \<subseteq> insert (''has_stats'', has_stats_item coll) (set coll)"
    by (rule set_update_subset)
  have ids': "\<forall>(k, item) \<in> set ?r. id_s item = k"
    using sub ids by (auto simp: has_stats_item_def)
  have "filter (\<lambda>(k, item). id_s item = ''has_stats'') ?r =
        filter (\<lambda>(k, item). k = ''has_stats'') ?r"
    by (rule filter_cong) (use ids' in auto)
  also have "\<dots> = [(''has_stats'', has_stats_item coll)]"
    by (rule filter_key_distinct) (simp_all add: distinct_update dist update_conv')
  finally show ?thesis
    using r val by simp
qed

theorem has_stats_entry_witness:
  "all_ids_complete stats_rows \<and> included_stat stats_rows ''rows'' \<and>
   format_stats stats_rows =
     Inr [(''rows'',
           \<lparr>id_s = ''rows'', label_s = ''Rows'', value_s = PInt 3,
            description_s = ''Number of rows'', include_s = True\<rparr>),
          (''has_stats'',
           \<lparr>id_s = ''has_stats'', label_s = ''Has Stats?'', value_s = PBool True,
            description_s = ''Indicates whether there are statistics for this table'',
            include_s = False\<rparr>)] \<and>
   filter (\<lambda>(k, item). id_s item = ''has_stats'') (projr (format_stats stats_rows)) =
     [(''has_stats'',
       \<lparr>id_s = ''has_stats'', label_s = ''Has Stats?'', value_s = PBool True,
        description_s = ''Indicates whether there are statistics for this table'',
        include_s = False\<rparr>)]"
proof -
  have c: "all_ids_complete stats_rows" by code_simp
  have i: "included_stat stats_rows ''rows''" by code_simp
  then have p: "(\<exists>k. included_stat stats_rows k) = True" by blast
  have e: "format_stats stats_rows =
     Inr [(''rows'',
           \<lparr>id_s = ''rows'', label_s = ''Rows'', value_s = PInt 3,
            description_s = ''Number of rows'', include_s = True\<rparr>),
          (''has_stats'',
           \<lparr>id_s = ''has_stats'', label_s = ''Has Stats?'', value_s = PBool True,
            description_s = ''Indicates whether there are statistics for this table'',
            include_s = False\<rparr>)]"
    by code_simp
  from has_stats_entry [OF c] show ?thesis
    unfolding p using c i e by auto
qed

text \<open>
  C4 as stated fails: for a mapping in which a stat id lacks a sub-key, \<open>format_stats\<close>
  raises \<open>KeyError\<close>; there is no result, and so no \<open>has_stats\<close> entry.
\<close>

theorem has_stats_absent_counterexample:
  "format_stats stats_no_include = Inl (KeyError ''size:include'')"
  by code_simp

text \<open>
  C3 (as the code has it). The unique ids of a manifest are distinct (they are the keys of
  a dict). \<open>make_unique_id_map\<close> raises the ambiguous-match exception if and only if two
  matched tables of the catalog have the same normalized key. When it returns, the ids of
  the result are distinct, and an id is bound to a table exactly when its node has the
  normalized key of a catalog table and the bound table is that table with the id as its
  unique id.
\<close>

theorem ambiguous_match_iff:
  assumes d: "distinct (map fst (nodes m))"
  shows "(ambiguous (make_unique_id_map c m) \<longleftrightarrow>
            \<not> distinct (map key (filter (matched m) (map snd c)))) \<and>
         (\<forall>res. make_unique_id_map c m = Inr res \<longrightarrow>
            distinct (map fst res) \<and>
            (\<forall>u t'. map_of res u = Some t' \<longleftrightarrow>
               (\<exists>n t. (u, n) \<in> set (nodes m) \<and> t \<in> snd ` set c \<and> mapping_key n = key t \<and>
                      t' = t\<lparr>unique_id := Some u\<rparr>)))"
proof (intro conjI allI impI)
  show "ambiguous (make_unique_id_map c m) \<longleftrightarrow>
            \<not> distinct (map key (filter (matched m) (map snd c)))"
    unfolding make_unique_id_map_cases make_unique_id_map_Inr distinct_pairs_iff [OF d]
    by simp
next
  fix res assume r: "make_unique_id_map c m = Inr res"
  then show "distinct (map fst res)"
    unfolding make_unique_id_map_Inr by simp
next
  fix res u t' assume r: "make_unique_id_map c m = Inr res"
  then have dd: "distinct (map fst res)" and e: "res = pairs m (map snd c)"
    unfolding make_unique_id_map_Inr by simp_all
  have "map_of res u = Some t' \<longleftrightarrow> (u, t') \<in> set res"
    using dd by simp
  also have "\<dots> \<longleftrightarrow> (\<exists>n t. (u, n) \<in> set (nodes m) \<and> t \<in> snd ` set c \<and> mapping_key n = key t \<and>
                      t' = t\<lparr>unique_id := Some u\<rparr>)"
    unfolding e set_pairs by simp
  finally show "map_of res u = Some t' \<longleftrightarrow>
     (\<exists>n t. (u, n) \<in> set (nodes m) \<and> t \<in> snd ` set c \<and> mapping_key n = key t \<and>
                      t' = t\<lparr>unique_id := Some u\<rparr>)" .
qed

theorem ambiguous_match_iff_witness:
  "distinct (map fst (nodes manifest_two)) \<and>
   distinct (map key (filter (matched manifest_two)
     (map snd (projr (Catalog [row_first, row_second]))))) \<and>
   \<not> ambiguous (make_unique_id_map (projr (Catalog [row_first, row_second])) manifest_two)"
proof -
  have d: "distinct (map fst (nodes manifest_two))"
    by code_simp
  have k: "distinct (map key (filter (matched manifest_two)
     (map snd (projr (Catalog [row_first, row_second])))))"
    by code_simp
  from ambiguous_match_iff [OF d, of "projr (Catalog [row_first, row_second])"] d k
  show ?thesis by blast
qed


text \<open>
  C3 as stated fails: with a single manifest entry (so no two entries share an id) and a
  catalog that holds the tables \<open>D.S.T\<close> and \<open>d.s.t\<close>, the matching raises the
  ambiguous-match exception.
\<close>

theorem one_entry_ambiguous_counterexample:
  "map fst (nodes manifest_one) = [''model.a''] \<and>
   ambiguous (catalog_nodes [row_upper, row_lower] manifest_one)"
  by code_simp

text \<open>
  C7 (as the code has it). The unique ids of the manifest being distinct: when no two
  matched tables of the catalog have the same normalized key, and two entries with
  different ids have the normalized key of a table of the catalog, the matching returns,
  and its result binds each of the two ids to that table with the id as its unique id.
\<close>

theorem shared_table_two_ids:
  assumes d: "distinct (map fst (nodes m))"
    and one: "distinct (map key (filter (matched m) (map snd c)))"
    and a: "(a, na) \<in> set (nodes m)" and b: "(b, nb) \<in> set (nodes m)" and ab: "a \<noteq> b"
    and t: "t \<in> snd ` set c"
    and ka: "mapping_key na = key t" and kb: "mapping_key nb = key t"
  shows "\<exists>res. make_unique_id_map c m = Inr res \<and>
           map_of res a = Some (t\<lparr>unique_id := Some a\<rparr>) \<and>
           map_of res b = Some (t\<lparr>unique_id := Some b\<rparr>)"
proof -
  let ?res = "pairs m (map snd c)"
  have dd: "distinct (map fst ?res)"
    unfolding distinct_pairs_iff [OF d] by (rule one)
  then have r: "make_unique_id_map c m = Inr ?res"
    unfolding make_unique_id_map_Inr by simp
  have "(a, t\<lparr>unique_id := Some a\<rparr>) \<in> set ?res"
    unfolding set_pairs using a t ka by auto
  then have ma: "map_of ?res a = Some (t\<lparr>unique_id := Some a\<rparr>)"
    using dd by simp
  have "(b, t\<lparr>unique_id := Some b\<rparr>) \<in> set ?res"
    unfolding set_pairs using b t kb by auto
  then have mb: "map_of ?res b = Some (t\<lparr>unique_id := Some b\<rparr>)"
    using dd by simp
  from r ma mb show ?thesis by blast
qed

theorem shared_table_two_ids_witness:
  "map_of (projr (make_unique_id_map (projr (Catalog [row_upper])) manifest_two)) ''model.a''
     = Some ((snd (hd (projr (Catalog [row_upper]))))\<lparr>unique_id := Some ''model.a''\<rparr>) \<and>
   map_of (projr (make_unique_id_map (projr (Catalog [row_upper])) manifest_two)) ''source.b''
     = Some ((snd (hd (projr (Catalog [row_upper]))))\<lparr>unique_id := Some ''source.b''\<rparr>)"
proof -
  let ?c = "projr (Catalog [row_upper])"
  let ?na = "\<lparr>database_n = ''D'', schema_n = ''S'', identifier_n = ''T''\<rparr>"
  let ?nb = "\<lparr>database_n = ''d'', schema_n = ''s'', identifier_n = ''t''\<rparr>"
  have d: "distinct (map fst (nodes manifest_two))"
    by code_simp
  have one: "distinct (map key (filter (matched manifest_two) (map snd ?c)))"
    by code_simp
  have a: "(''model.a'', ?na) \<in> set (nodes manifest_two)"
    by (simp add: manifest_two_def)
  have b: "(''source.b'', ?nb) \<in> set (nodes manifest_two)"
    by (simp add: manifest_two_def)
  have ab: "''model.a'' \<noteq> ''source.b''"
    by simp
  have t: "snd (hd ?c) \<in> snd ` set ?c"
    by code_simp
  have ka: "mapping_key ?na = key (snd (hd ?c))"
    by code_simp
  have kb: "mapping_key ?nb = key (snd (hd ?c))"
    by code_simp
  from shared_table_two_ids [OF d one a b ab t ka kb] show ?thesis
    by auto
qed

text \<open>
  C7 as stated fails: two entries with different ids resolve to the key \<open>(d, s, t)\<close>, the
  catalog holds the tables \<open>D.S.T\<close> and \<open>d.s.t\<close>, both with that normalized key, and the
  matching raises the ambiguous-match exception.
\<close>

theorem shared_key_ambiguous_counterexample:
  "map (map_prod id mapping_key) (nodes manifest_two) =
     [(''model.a'', (''d'', ''s'', ''t'')), (''source.b'', (''d'', ''s'', ''t''))] \<and>
   map_sum id (map fst) (Catalog [row_upper, row_lower]) =
     Inr [(''D'', ''S'', ''T''), (''d'', ''s'', ''t'')] \<and>
   ambiguous (catalog_nodes [row_upper, row_lower] manifest_two)"
  by code_simp

end
